theory Spec2Isabelle
  imports Complex_Main "HOL-Library.Word" "HOL-Library.Multiset"
begin

unbundle bit_operations_syntax

section \<open>EMSMiner: a shallow embedding of main.go\<close>

text \<open>
  The program mines points of the complex plane whose Mandelbrot escape depth lies in a
  requested range, and writes them, sorted, to an .ems file.  Everything the program
  computes with is a \<^verbatim>\<open>float64\<close>, a \<^verbatim>\<open>complex128\<close>, an \<^verbatim>\<open>int\<close>,
  a \<^verbatim>\<open>bool\<close> or a slice of these.

  \<^item> \<^verbatim>\<open>float64\<close> is the type variable \<open>'f\<close>.  The rounding of IEEE-754 arithmetic is
    not written out: the operations the source applies to floats are the fields of a record
    that the functions of the model take as their first argument, so that each theorem
    below holds for whatever these operations compute, the hardware's included.
  \<^item> \<^verbatim>\<open>int\<close> is the 64-bit integer of Go on a 64-bit machine: a value of \<open>int\<close>
    between \<open>- 2 ^ 63\<close> and \<open>2 ^ 63 - 1\<close>, with the wrap-around of its arithmetic
    written out as \<open>wrap\<close> (see below for the places where it is written).
  \<^item> A panic is a value of the type \<open>panic\<close>; a function that can panic returns
    \<open>panic + 'a\<close>.
  \<^item> A \<^verbatim>\<open>goto\<close> loop is a body that says where it jumps, and a recursive function
    that follows the jump.
\<close>

subsection \<open>float64 and complex128\<close>

text \<open>
  The comparisons of the source: \<^verbatim>\<open><\<close>, \<^verbatim>\<open><=\<close> and \<^verbatim>\<open>==\<close>.
  \<^verbatim>\<open>a > b\<close> is \<^verbatim>\<open>b < a\<close>, and \<^verbatim>\<open>a != b\<close> is the negation of \<^verbatim>\<open>a == b\<close>.
\<close>

datatype 'f complex128 = Cplx (re: 'f) (im: 'f)

record 'f fcmp =
  flt :: "'f \<Rightarrow> 'f \<Rightarrow> bool"
  fle :: "'f \<Rightarrow> 'f \<Rightarrow> bool"
  feq :: "'f \<Rightarrow> 'f \<Rightarrow> bool"

text \<open>
  The arithmetic of the source: \<^verbatim>\<open>+ - * /\<close>, the conversions \<^verbatim>\<open>float64(n)\<close> and
  \<^verbatim>\<open>int(x)\<close> (float constants of the source are integers: \<^verbatim>\<open>2.00\<close>, \<^verbatim>\<open>4\<close>, \<^verbatim>\<open>-2.00\<close>),
  \<^verbatim>\<open>math.Round\<close> and \<^verbatim>\<open>cmplx.Abs\<close>.
\<close>

record 'f fpu =
  cmp :: "'f fcmp"
  fadd :: "'f \<Rightarrow> 'f \<Rightarrow> 'f"
  fsub :: "'f \<Rightarrow> 'f \<Rightarrow> 'f"
  fmul :: "'f \<Rightarrow> 'f \<Rightarrow> 'f"
  fdiv :: "'f \<Rightarrow> 'f \<Rightarrow> 'f"
  float64 :: "int \<Rightarrow> 'f"
  toInt :: "'f \<Rightarrow> int"
  Round :: "'f \<Rightarrow> 'f"
  Abs :: "'f complex128 \<Rightarrow> 'f"

text \<open>\<^verbatim>\<open>z*z + c\<close> and \<^verbatim>\<open>oldz == z\<close> on \<^verbatim>\<open>complex128\<close>, by components.\<close>

definition cmul :: "'f fpu \<Rightarrow> 'f complex128 \<Rightarrow> 'f complex128 \<Rightarrow> 'f complex128" where
  "cmul F a b =
     Cplx (fsub F (fmul F (re a) (re b)) (fmul F (im a) (im b)))
          (fadd F (fmul F (re a) (im b)) (fmul F (im a) (re b)))"

definition cadd :: "'f fpu \<Rightarrow> 'f complex128 \<Rightarrow> 'f complex128 \<Rightarrow> 'f complex128" where
  "cadd F a b = Cplx (fadd F (re a) (re b)) (fadd F (im a) (im b))"

definition ceq :: "'f fpu \<Rightarrow> 'f complex128 \<Rightarrow> 'f complex128 \<Rightarrow> bool" where
  "ceq F a b = (feq (cmp F) (re a) (re b) \<and> feq (cmp F) (im a) (im b))"

text \<open>The zero value of \<^verbatim>\<open>complex128\<close>: \<^verbatim>\<open>complex(0, 0)\<close>.\<close>

definition czero :: "'f fpu \<Rightarrow> 'f complex128" where
  "czero F = Cplx (float64 F 0) (float64 F 0)"

datatype panic =
    HowmanyLessThanOne
  | MaxLessThanMin
  | MinLessThanTwo
  | IndexOutOfRange
  | MakesliceLenOutOfRange
  | OpenFileError

subsection \<open>int and make\<close>

text \<open>
  The sum, difference or product of two values of \<^verbatim>\<open>int\<close> is the integer of
  \<open>[- 2 ^ 63, 2 ^ 63 - 1]\<close> that differs from the exact result by a multiple of
  \<open>2 ^ 64\<close>.  \<open>MaxInt\<close> is the largest \<^verbatim>\<open>int\<close>.

  \<open>wrap\<close> is written at \<^verbatim>\<open>l = max + 2\<close>, at the arithmetic on \<open>repcheck\<close>,
  \<open>repcheckstart\<close> and \<open>j\<close> in \<^verbatim>\<open>Mine\<close>, and at the arithmetic on
  \<open>size\<close>, \<open>found\<close>, \<open>limmin\<close> and \<open>limmax\<close> in
  \<^verbatim>\<open>GenerateGuidemap\<close>.  It is not written where the operand has just been compared
  with an \<^verbatim>\<open>int\<close> above it, so that adding one cannot leave the range:
  \<^verbatim>\<open>i++\<close> in the inner loop (\<open>i\<close> is \<open>0\<close> or has passed \<^verbatim>\<open>i < l\<close>; see
  \<open>evaluate_int\<close>), \<^verbatim>\<open>idx++\<close> in the probing loop (after \<^verbatim>\<open>idx < limmax+2\<close>),
  \<^verbatim>\<open>found++\<close> in \<^verbatim>\<open>Mine\<close> (\<open>found\<close> is \<open>0\<close> or has passed
  \<^verbatim>\<open>found < howmany\<close>) and \<^verbatim>\<open>sidx++\<close> (after \<open>sidx\<close> has indexed the
  seedpack).  In \<^verbatim>\<open>Mark\<close> and \<^verbatim>\<open>Check\<close> the index \<^verbatim>\<open>y*this.itsWidth+x\<close> is
  below the number of cells of a grid of \<open>itsWidth\<close> by \<open>itsHeight\<close> cells, which is
  the length of a slice.
\<close>

definition MaxInt :: int where
  "MaxInt = 2 ^ 63 - 1"

definition wrap :: "int \<Rightarrow> int" where
  "wrap i = (i + 2 ^ 63) mod 2 ^ 64 - 2 ^ 63"

text \<open>
  \<^verbatim>\<open>make([]T, len)\<close> belongs to Go's runtime: it panics with
  \<^verbatim>\<open>makeslice: len out of range\<close> when \<open>len\<close> is negative or when \<open>len\<close>
  elements of the size of \<open>T\<close> take more than \<open>maxAlloc\<close> bytes, which is \<open>2 ^ 48\<close>
  on a 64-bit machine (linux/amd64).  A \<^verbatim>\<open>bool\<close> takes 1 byte, a
  \<^verbatim>\<open>complex128\<close> takes 16.  Below that limit the machine is taken to have the memory
  asked for.
\<close>

definition maxAlloc :: int where
  "maxAlloc = 2 ^ 48"

definition makeslice_panics :: "int \<Rightarrow> int \<Rightarrow> bool" where
  "makeslice_panics size' len = (len < 0 \<or> maxAlloc < size' * len)"

subsection \<open>Guidemap\<close>

record 'f Guidemap =
  itsWidth :: int
  itsHeight :: int
  itsMinR :: 'f
  itsMaxR :: 'f
  itsMinI :: 'f
  itsMaxI :: 'f
  itsDelR :: 'f
  itsDelI :: 'f
  itsData :: "bool list"

text \<open>
  \<^verbatim>\<open>Mark\<close> and \<^verbatim>\<open>Check\<close>, statement by statement.  The source writes the mapping
  from a point to a cell twice, once in each method; so does the model.  Indexing the slice
  outside its bounds is the panic \<open>IndexOutOfRange\<close>.
\<close>

definition Mark :: "'f fpu \<Rightarrow> 'f Guidemap \<Rightarrow> 'f complex128 \<Rightarrow> panic + 'f Guidemap" where
  "Mark F this c =
    (let x = toInt F (Round F (fdiv F (fsub F (re c) (itsMinR this)) (itsDelR this)));
         y = toInt F (Round F (fdiv F (fsub F (im c) (itsMinI this)) (itsDelI this)));
         x = (if x < 0 then 0 else x);
         x = (if x > itsWidth this - 1 then itsWidth this - 1 else x);
         y = (if y < 0 then 0 else y);
         y = (if y > itsHeight this - 1 then itsHeight this - 1 else y);
         k = y * itsWidth this + x
     in if 0 \<le> k \<and> k < int (length (itsData this))
        then Inr (this\<lparr>itsData := (itsData this)[nat k := True]\<rparr>)
        else Inl IndexOutOfRange)"

definition Check :: "'f fpu \<Rightarrow> 'f Guidemap \<Rightarrow> 'f complex128 \<Rightarrow> panic + bool" where
  "Check F this c =
    (let x = toInt F (Round F (fdiv F (fsub F (re c) (itsMinR this)) (itsDelR this)));
         y = toInt F (Round F (fdiv F (fsub F (im c) (itsMinI this)) (itsDelI this)));
         x = (if x < 0 then 0 else x);
         x = (if x > itsWidth this - 1 then itsWidth this - 1 else x);
         y = (if y < 0 then 0 else y);
         y = (if y > itsHeight this - 1 then itsHeight this - 1 else y);
         k = y * itsWidth this + x
     in if 0 \<le> k \<and> k < int (length (itsData this))
        then Inr (itsData this ! nat k)
        else Inl IndexOutOfRange)"

subsection \<open>Jumps\<close>

text \<open>
  A loop of the source is a label and a conditional \<^verbatim>\<open>goto\<close> back to it.  One pass
  through the loop's body ends by jumping back with new values of the variables
  (\<open>Goto\<close>), by leaving the loop (\<open>Leave\<close>) or by a panic.
\<close>

datatype ('s, 'r) jump = Goto 's | Leave 'r | Panicking panic

subsection \<open>The inner loop of Mine: IterateZ\<close>

text \<open>
  \<^verbatim>\<open>real(z)*real(z) + imag(z)*imag(z)\<close>, compared with \<^verbatim>\<open>b := 2.00 * 2.00\<close>.
\<close>

definition norm2 :: "'f fpu \<Rightarrow> 'f complex128 \<Rightarrow> 'f" where
  "norm2 F z = fadd F (fmul F (re z) (re z)) (fmul F (im z) (im z))"

definition bounded :: "'f fpu \<Rightarrow> 'f complex128 \<Rightarrow> bool" where
  "bounded F z = fle (cmp F) (norm2 F z) (float64 F 4)"

text \<open>
  The statements from \<^verbatim>\<open>repcheck--\<close> to the conditional \<^verbatim>\<open>goto IterateZ\<close>.
\<close>

definition IterateZ_next ::
  "'f fpu \<Rightarrow> int \<Rightarrow> 'f complex128 \<Rightarrow> 'f complex128 \<Rightarrow> int \<Rightarrow> int \<Rightarrow> int \<Rightarrow>
   ('f complex128 \<times> 'f complex128 \<times> int \<times> int \<times> int, int) jump" where
  "IterateZ_next F l z oldz i repcheck repcheckstart =
    (let repcheck = wrap (repcheck - 1);
         i = i + 1
     in if i < l \<and> bounded F z then Goto (z, oldz, i, repcheck, repcheckstart) else Leave i)"

text \<open>
  One pass from the label \<^verbatim>\<open>IterateZ\<close>: the recurrence, the cycle check (which asks
  the guidemap when the iteration count is a multiple of 8), then the statements above.  Leaving with
  \<open>-1\<close> is \<^verbatim>\<open>i = -1; goto IterateZDone\<close>.  Go evaluates \<^verbatim>\<open>guidemap.Check(c)\<close>
  before \<^verbatim>\<open>i%64 != 0\<close>; \<open>i\<close> is never negative here, so \<^verbatim>\<open>%\<close> is \<open>mod\<close>.
\<close>

definition IterateZ_body ::
  "'f fpu \<Rightarrow> 'f Guidemap \<Rightarrow> 'f complex128 \<Rightarrow> int \<Rightarrow>
   'f complex128 \<Rightarrow> 'f complex128 \<Rightarrow> int \<Rightarrow> int \<Rightarrow> int \<Rightarrow>
   ('f complex128 \<times> 'f complex128 \<times> int \<times> int \<times> int, int) jump" where
  "IterateZ_body F guidemap c l z oldz i repcheck repcheckstart =
    (let z = cadd F (cmul F z z) c
     in if repcheck = 0 then
          if ceq F oldz z then Leave (- 1)
          else
            let oldz = z
            in if i mod 8 = 0 then
                 let repcheckstart = wrap (repcheckstart + 2)
                 in case Check F guidemap c of
                      Inl e \<Rightarrow> Panicking e
                    | Inr marked \<Rightarrow>
                        if \<not> marked \<and> i mod 64 \<noteq> 0 then Leave (- 1)
                        else IterateZ_next F l z oldz i repcheckstart repcheckstart
               else
                 let repcheckstart = wrap (repcheckstart + 1)
                 in IterateZ_next F l z oldz i repcheckstart repcheckstart
        else IterateZ_next F l z oldz i repcheck repcheckstart)"

text \<open>
  The loop.  Its result is the value of \<open>i\<close> at the label \<^verbatim>\<open>IterateZDone\<close>, and with it
  the number of times the statement \<^verbatim>\<open>z = z*z + c\<close> was executed: \<open>n\<close> counts them, and
  is no variable of the source.
\<close>

function IterateZ ::
  "'f fpu \<Rightarrow> 'f Guidemap \<Rightarrow> 'f complex128 \<Rightarrow> int \<Rightarrow>
   'f complex128 \<Rightarrow> 'f complex128 \<Rightarrow> int \<Rightarrow> int \<Rightarrow> int \<Rightarrow> nat \<Rightarrow> panic + int \<times> nat" where
  "IterateZ F guidemap c l z oldz i repcheck repcheckstart n =
    (case IterateZ_body F guidemap c l z oldz i repcheck repcheckstart of
       Goto (z', oldz', i', repcheck', repcheckstart') \<Rightarrow>
         IterateZ F guidemap c l z' oldz' i' repcheck' repcheckstart' (Suc n)
     | Leave i' \<Rightarrow> Inr (i', Suc n)
     | Panicking e \<Rightarrow> Inl e)"
  by pat_completeness auto
termination
  by (relation "measure (\<lambda>(F, guidemap, c, l, z, oldz, i, repcheck, repcheckstart, n). nat (l - i))")
    (auto simp: IterateZ_body_def IterateZ_next_def Let_def split: if_splits sum.splits)

text \<open>
  The loop as \<^verbatim>\<open>Mine\<close> enters it for a candidate \<open>c\<close> (the parameters
  \<^verbatim>\<open>min\<close> and \<^verbatim>\<open>max\<close> of the source are \<open>mindepth\<close> and \<open>maxdepth\<close> here):
  \<^verbatim>\<open>z = complex(0, 0)\<close>, \<^verbatim>\<open>l = max + 2\<close>, \<^verbatim>\<open>i = 0\<close>,
  \<^verbatim>\<open>repcheckstart = 2\<close>, \<^verbatim>\<open>repcheck = repcheckstart\<close>, \<^verbatim>\<open>oldz = z\<close>.
  For \<open>max\<close> of \<open>2 ^ 63 - 2\<close> or \<open>2 ^ 63 - 1\<close> the sum \<^verbatim>\<open>max + 2\<close> wraps around
  and \<open>l\<close> is negative.
\<close>

definition evaluate :: "'f fpu \<Rightarrow> 'f Guidemap \<Rightarrow> 'f complex128 \<Rightarrow> int \<Rightarrow> panic + int \<times> nat" where
  "evaluate F guidemap c maxdepth =
     IterateZ F guidemap c (wrap (maxdepth + 2)) (czero F) (czero F) 0 2 2 0"

subsection \<open>GenerateGuidemap\<close>

text \<open>
  The generator \<^verbatim>\<open>rand.Float64\<close> is a sequence \<open>rand\<close> of floats and the number
  \<open>drawn\<close> of values taken from it so far; a function that draws returns the new number.
  The probing loop of \<^verbatim>\<open>GenerateGuidemap\<close> runs while less than 60 seconds have passed:
  how many passes that is depends on the machine, and is the parameter \<open>nprobes\<close>.
  \<open>NewGuidemap\<close> is the guidemap before the probing loop: the fields as assigned, the grid
  \<^verbatim>\<open>make([]bool, this.itsWidth * this.itsHeight)\<close>, every cell false;
  \<^verbatim>\<open>GenerateGuidemap\<close> panics where that \<^verbatim>\<open>make\<close> does.  \<^verbatim>\<open>found % 1000\<close>
  is compared with \<open>0\<close> only, where \<^verbatim>\<open>%\<close> and \<open>mod\<close> agree.  The program
  calls \<^verbatim>\<open>GenerateGuidemap\<close> once, with the size 51.
\<close>

definition NewGuidemap :: "'f fpu \<Rightarrow> int \<Rightarrow> 'f Guidemap" where
  "NewGuidemap F size' =
     \<lparr>itsWidth = size', itsHeight = size',
      itsMinR = float64 F (- 2), itsMaxR = float64 F 2,
      itsMinI = float64 F (- 2), itsMaxI = float64 F 2,
      itsDelR = fdiv F (fsub F (float64 F 2) (float64 F (- 2))) (float64 F size'),
      itsDelI = fdiv F (fsub F (float64 F 2) (float64 F (- 2))) (float64 F size'),
      itsData = replicate (nat (wrap (size' * size'))) False\<rparr>"

text \<open>
  \<^verbatim>\<open>for idx := 0; idx < limmax+2; idx++\<close>: \<open>Some idx\<close> when \<^verbatim>\<open>cmplx.Abs(z) > 2\<close>
  at \<open>idx\<close> (the loop is left by \<^verbatim>\<open>break\<close> there), \<open>None\<close> when the loop runs out.
\<close>

function probe :: "'f fpu \<Rightarrow> 'f complex128 \<Rightarrow> int \<Rightarrow> 'f complex128 \<Rightarrow> int \<Rightarrow> int option" where
  "probe F c limmax z idx =
    (if idx < wrap (limmax + 2) then
       let z = cadd F (cmul F z z) c
       in if flt (cmp F) (float64 F 2) (Abs F z) then Some idx
          else probe F c limmax z (idx + 1)
     else None)"
  by pat_completeness auto
termination
  by (relation "measure (\<lambda>(F, c, limmax, z, idx). nat (wrap (limmax + 2) - idx))") auto

fun probes ::
  "'f fpu \<Rightarrow> (nat \<Rightarrow> 'f) \<Rightarrow> nat \<Rightarrow> 'f Guidemap \<Rightarrow> int \<Rightarrow> int \<Rightarrow> int \<Rightarrow> nat \<Rightarrow>
   (panic + 'f Guidemap) \<times> nat" where
  "probes F rand 0 this found limmin limmax drawn = (Inr this, drawn)"
| "probes F rand (Suc nprobes) this found limmin limmax drawn =
    (let z = czero F;
         c = Cplx (fsub F (fmul F (rand drawn) (float64 F 4)) (float64 F 2))
                  (fmul F (rand (drawn + 1)) (float64 F 2));
         drawn = drawn + 2
     in case probe F c limmax z 0 of
          None \<Rightarrow> probes F rand nprobes this found limmin limmax drawn
        | Some idx \<Rightarrow>
            if idx \<ge> limmin then
              let found = wrap (found + 1);
                  double = (found mod 1000 = 0);
                  limmax = (if double then wrap (limmax * 2) else limmax);
                  limmin = (if double then wrap (limmin * 2) else limmin)
              in case Mark F this c of
                   Inl e \<Rightarrow> (Inl e, drawn)
                 | Inr this \<Rightarrow> probes F rand nprobes this found limmin limmax drawn
            else probes F rand nprobes this found limmin limmax drawn)"

definition GenerateGuidemap ::
  "'f fpu \<Rightarrow> (nat \<Rightarrow> 'f) \<Rightarrow> nat \<Rightarrow> int \<Rightarrow> nat \<Rightarrow> (panic + 'f Guidemap) \<times> nat" where
  "GenerateGuidemap F rand nprobes size' drawn =
    (if makeslice_panics 1 (wrap (size' * size')) then (Inl MakesliceLenOutOfRange, drawn)
     else
       let this = NewGuidemap F size';
           found = 0;
           limmin = 32;
           limmax = limmin * 2
       in probes F rand nprobes this found limmin limmax drawn)"

subsection \<open>Mine\<close>

text \<open>
  \<^verbatim>\<open>NewSeedpack\<close>: \<^verbatim>\<open>make([]complex128, howmany)\<close>, every slot zero, or the
  panic of \<^verbatim>\<open>make\<close>.
\<close>

definition NewSeedpack :: "'f fpu \<Rightarrow> int \<Rightarrow> panic + 'f complex128 list" where
  "NewSeedpack F howmany =
    (if makeslice_panics 16 howmany then Inl MakesliceLenOutOfRange
     else Inr (replicate (nat howmany) (czero F)))"

text \<open>
  The variables of the outer loop: \<open>seeds\<close>, \<open>sidx\<close>, \<open>guidemap\<close>, \<open>found\<close>,
  \<open>realmin\<close>, \<open>realmax\<close>, \<open>j\<close>, and \<open>drawn\<close> for the generator.  The progress
  report (\<open>relfound\<close>, \<open>updateInterval\<close>, the clocks and the printing) reads these
  variables and writes none of them; it is left out.  What it computes depends on the clock;
  its one operation that could panic is \<^verbatim>\<open>relfound % updateInterval\<close>, whose divisor
  starts at 1 and is only multiplied by a positive number and incremented.
\<close>

type_synonym 'f mining =
  "'f complex128 list \<times> int \<times> 'f Guidemap \<times> int \<times> int \<times> int \<times> int \<times> nat"

text \<open>\<^verbatim>\<open>j++\<close> and the conditional \<^verbatim>\<open>goto CheckNewC\<close>.\<close>

definition CheckNewC_next ::
  "int \<Rightarrow> 'f complex128 list \<Rightarrow> int \<Rightarrow> 'f Guidemap \<Rightarrow> int \<Rightarrow> int \<Rightarrow> int \<Rightarrow> int \<Rightarrow> nat \<Rightarrow>
   ('f mining, 'f mining) jump" where
  "CheckNewC_next howmany seeds sidx guidemap found realmin realmax j drawn =
    (let j = wrap (j + 1)
     in if found < howmany
        then Goto (seeds, sidx, guidemap, found, realmin, realmax, j, drawn)
        else Leave (seeds, sidx, guidemap, found, realmin, realmax, j, drawn))"

text \<open>
  One pass from the label \<^verbatim>\<open>CheckNewC\<close>: draw a candidate, run the inner loop, and at
  \<^verbatim>\<open>IterateZDone\<close> accept the candidate when \<^verbatim>\<open>i >= min && i <= max\<close>.
\<close>

definition CheckNewC_body ::
  "'f fpu \<Rightarrow> (nat \<Rightarrow> 'f) \<Rightarrow> int \<Rightarrow> int \<Rightarrow> int \<Rightarrow>
   'f complex128 list \<Rightarrow> int \<Rightarrow> 'f Guidemap \<Rightarrow> int \<Rightarrow> int \<Rightarrow> int \<Rightarrow> int \<Rightarrow> nat \<Rightarrow>
   ('f mining, 'f mining) jump" where
  "CheckNewC_body F rand howmany mindepth maxdepth
      seeds sidx guidemap found realmin realmax j drawn =
    (let c = Cplx (fsub F (fmul F (rand drawn) (float64 F 4)) (float64 F 2))
                  (fmul F (rand (drawn + 1)) (float64 F 2));
         drawn = drawn + 2
     in case evaluate F guidemap c maxdepth of
          Inl e \<Rightarrow> Panicking e
        | Inr (i, n) \<Rightarrow>
            if i \<ge> mindepth \<and> i \<le> maxdepth then
              let realmin = (if i < realmin then i else realmin);
                  realmax = (if i > realmax then i else realmax);
                  found = found + 1
              in if 0 \<le> sidx \<and> sidx < int (length seeds) then
                   let seeds = seeds[nat sidx := c];
                       sidx = sidx + 1
                   in case Mark F guidemap c of
                        Inl e \<Rightarrow> Panicking e
                      | Inr guidemap \<Rightarrow>
                          CheckNewC_next howmany seeds sidx guidemap found realmin realmax j drawn
                 else Panicking IndexOutOfRange
            else CheckNewC_next howmany seeds sidx guidemap found realmin realmax j drawn)"

text \<open>
  The outer loop has no bound: it is left only when \<open>found < howmany\<close> fails.  Not
  returning is the value \<open>None\<close>.  A panic within a pass comes after the pass has drawn
  its candidate.
\<close>

partial_function (option) CheckNewC ::
  "'f fpu \<Rightarrow> (nat \<Rightarrow> 'f) \<Rightarrow> int \<Rightarrow> int \<Rightarrow> int \<Rightarrow>
   'f complex128 list \<Rightarrow> int \<Rightarrow> 'f Guidemap \<Rightarrow> int \<Rightarrow> int \<Rightarrow> int \<Rightarrow> int \<Rightarrow> nat \<Rightarrow>
   ((panic + 'f mining) \<times> nat) option" where
  "CheckNewC F rand howmany mindepth maxdepth seeds sidx guidemap found realmin realmax j drawn =
    (case CheckNewC_body F rand howmany mindepth maxdepth
            seeds sidx guidemap found realmin realmax j drawn of
       Goto (seeds', sidx', guidemap', found', realmin', realmax', j', drawn') \<Rightarrow>
         CheckNewC F rand howmany mindepth maxdepth
           seeds' sidx' guidemap' found' realmin' realmax' j' drawn'
     | Leave (seeds', sidx', guidemap', found', realmin', realmax', j', drawn') \<Rightarrow>
         Some (Inr (seeds', sidx', guidemap', found', realmin', realmax', j', drawn'), drawn')
     | Panicking e \<Rightarrow> Some (Inl e, drawn + 2))"

text \<open>
  \<^verbatim>\<open>Mine\<close>: the three checks of the configuration, the initialisation, the loop.  The
  result pairs what \<^verbatim>\<open>Mine\<close> returns, or the panic that ends it, with the number of
  values drawn from the generator; \<^verbatim>\<open>NewSeedpack\<close> is called before anything is drawn.
\<close>

definition Mine ::
  "'f fpu \<Rightarrow> (nat \<Rightarrow> 'f) \<Rightarrow> nat \<Rightarrow> int \<Rightarrow> int \<Rightarrow> int \<Rightarrow>
   ((panic + 'f complex128 list \<times> int \<times> int) \<times> nat) option" where
  "Mine F rand nprobes howmany mindepth maxdepth =
    (if howmany < 1 then Some (Inl HowmanyLessThanOne, 0)
     else if maxdepth < mindepth then Some (Inl MaxLessThanMin, 0)
     else if mindepth < 2 then Some (Inl MinLessThanTwo, 0)
     else
       case NewSeedpack F howmany of
         Inl e \<Rightarrow> Some (Inl e, 0)
       | Inr seeds \<Rightarrow>
           let sidx = 0
           in (case GenerateGuidemap F rand nprobes 51 0 of
                 (Inl e, drawn) \<Rightarrow> Some (Inl e, drawn)
               | (Inr guidemap, drawn) \<Rightarrow>
                   let found = 0;
                       realmin = maxdepth;
                       realmax = mindepth;
                       j = 0
                   in (case CheckNewC F rand howmany mindepth maxdepth
                              seeds sidx guidemap found realmin realmax j drawn of
                         None \<Rightarrow> None
                       | Some (Inl e, drawn) \<Rightarrow> Some (Inl e, drawn)
                       | Some (Inr (seeds, sidx, guidemap, found, realmin, realmax, j, drawn'),
                               drawn) \<Rightarrow>
                           Some (Inr (seeds, realmin, realmax), drawn))))"

subsection \<open>Seedpack\<close>

text \<open>
  The comparison that \<^verbatim>\<open>Sort\<close> hands to \<^verbatim>\<open>sort.SliceStable\<close>, on the elements
  \<^verbatim>\<open>this[i]\<close> and \<^verbatim>\<open>this[j]\<close>.
\<close>

definition less_seed :: "'f fcmp \<Rightarrow> 'f complex128 \<Rightarrow> 'f complex128 \<Rightarrow> bool" where
  "less_seed C a b =
    (if \<not> feq C (re a) (re b) then flt C (re a) (re b) else flt C (im a) (im b))"

text \<open>
  \<^verbatim>\<open>sort.SliceStable\<close> belongs to Go's library.  For slices of at most 20 elements it is
  the library's insertion sort, which the model follows for every length: each element in
  turn is swapped with its left neighbour while it is less than that neighbour.  For a
  comparison that is a strict weak order a stable sort has one possible result, so longer
  slices, which the library sorts by merging insertion-sorted blocks, end up the same.
  \<open>insertLeft less' x ys\<close> moves \<open>x\<close> into the part already sorted, held in \<open>ys\<close> from
  right to left.
\<close>

fun insertLeft :: "('a \<Rightarrow> 'a \<Rightarrow> bool) \<Rightarrow> 'a \<Rightarrow> 'a list \<Rightarrow> 'a list" where
  "insertLeft less' x [] = [x]"
| "insertLeft less' x (y # ys) = (if less' x y then y # insertLeft less' x ys else x # y # ys)"

definition SliceStable :: "('a \<Rightarrow> 'a \<Rightarrow> bool) \<Rightarrow> 'a list \<Rightarrow> 'a list" where
  "SliceStable less' xs = rev (foldl (\<lambda>ys x. insertLeft less' x ys) [] xs)"

definition Sort :: "'f fcmp \<Rightarrow> 'f complex128 list \<Rightarrow> 'f complex128 list" where
  "Sort C this = SliceStable (less_seed C) this"

subsection \<open>SaveEMSFile and main\<close>

type_synonym byte = "8 word"

text \<open>
  \<^verbatim>\<open>binary.Write(buf, binary.LittleEndian, c)\<close> appends the bits of \<^verbatim>\<open>real(c)\<close> and
  then of \<^verbatim>\<open>imag(c)\<close>, each as eight bytes, the lowest first:
  \<^verbatim>\<open>b[0] = byte(v); b[1] = byte(v >> 8); ...\<close>.  The bits of a float are given by
  \<^verbatim>\<open>math.Float64bits\<close>, the parameter \<open>bits\<close>.
\<close>

definition PutUint64 :: "64 word \<Rightarrow> byte list" where
  "PutUint64 v =
    [ucast v, ucast (drop_bit 8 v), ucast (drop_bit 16 v), ucast (drop_bit 24 v),
     ucast (drop_bit 32 v), ucast (drop_bit 40 v), ucast (drop_bit 48 v), ucast (drop_bit 56 v)]"

definition Write_complex128 :: "('f \<Rightarrow> 64 word) \<Rightarrow> byte list \<Rightarrow> 'f complex128 \<Rightarrow> byte list" where
  "Write_complex128 bits buf c = buf @ PutUint64 (bits (re c)) @ PutUint64 (bits (im c))"

text \<open>The bytes of the string literal that \<^verbatim>\<open>SaveEMSFile\<close> writes first.\<close>

definition magic :: "byte list" where
  "magic = map (\<lambda>ch. of_nat (of_char ch)) ''@DM.EMS{codex.apeirography.art} ''"

text \<open>
  The file that \<^verbatim>\<open>SaveEMSFile\<close> leaves: the three parts of its name (the name is
  \<^verbatim>\<open>min-max_md5.ems\<close>) and the bytes written to it.
\<close>

record 'd ems_file =
  name_min :: int
  name_max :: int
  name_md5 :: 'd
  contents :: "byte list"

text \<open>
  \<^verbatim>\<open>SaveEMSFile\<close>, statement by statement.  \<^verbatim>\<open>md5.Sum\<close> is the parameter
  \<open>md5sum\<close>; whether \<^verbatim>\<open>os.OpenFile\<close> succeeds is the parameter \<open>openable\<close>.
\<close>

definition SaveEMSFile ::
  "'f fcmp \<Rightarrow> ('f \<Rightarrow> 64 word) \<Rightarrow> (byte list \<Rightarrow> 'd) \<Rightarrow> bool \<Rightarrow>
   'f complex128 list \<Rightarrow> int \<Rightarrow> int \<Rightarrow> panic + 'd ems_file" where
  "SaveEMSFile C bits md5sum openable seeds mindepth maxdepth =
    (let buf = [];
         seeds = Sort C seeds;
         buf = foldl (Write_complex128 bits) buf seeds;
         md5 = md5sum buf
     in if \<not> openable then Inl OpenFileError
        else
          let buf = [];
              buf = buf @ magic;
              buf = foldl (Write_complex128 bits) buf seeds
          in Inr \<lparr>name_min = mindepth, name_max = maxdepth, name_md5 = md5, contents = buf\<rparr>)"

text \<open>
  \<^verbatim>\<open>main\<close>, after the flags are parsed: \<^verbatim>\<open>Mine\<close>, then \<^verbatim>\<open>SaveEMSFile\<close> with
  what \<^verbatim>\<open>Mine\<close> returned.  A panic ends the program, and no file is written.
\<close>

definition main ::
  "'f fpu \<Rightarrow> (nat \<Rightarrow> 'f) \<Rightarrow> nat \<Rightarrow> ('f \<Rightarrow> 64 word) \<Rightarrow> (byte list \<Rightarrow> 'd) \<Rightarrow> bool \<Rightarrow>
   int \<Rightarrow> int \<Rightarrow> int \<Rightarrow> (panic + 'd ems_file) option" where
  "main F rand nprobes bits md5sum openable howmany mindepth maxdepth =
    (case Mine F rand nprobes howmany mindepth maxdepth of
       None \<Rightarrow> None
     | Some (Inl e, drawn) \<Rightarrow> Some (Inl e)
     | Some (Inr (seeds, realmin, realmax), drawn) \<Rightarrow>
         Some (SaveEMSFile (cmp F) bits md5sum openable seeds realmin realmax))"

subsection \<open>What the specification compares the program with\<close>


text \<open>
  The plain escape time: the recurrence is iterated, and the iterations counted, until the
  point has left the disc of radius 2 or \<open>l\<close> iterations are done.  No cycle is looked
  for and no guidemap is asked.
\<close>

function escape_time :: "'f fpu \<Rightarrow> 'f complex128 \<Rightarrow> int \<Rightarrow> 'f complex128 \<Rightarrow> int \<Rightarrow> int" where
  "escape_time F c l z i =
    (let z = cadd F (cmul F z z) c;
         i = i + 1
     in if i < l \<and> bounded F z then escape_time F c l z i else i)"
  by pat_completeness auto
termination
  by (relation "measure (\<lambda>(F, c, l, z, i). nat (l - i))") auto

definition plain_depth :: "'f fpu \<Rightarrow> 'f complex128 \<Rightarrow> int \<Rightarrow> int" where
  "plain_depth F c maxdepth = escape_time F c (maxdepth + 2) (czero F) 0"

text \<open>
  The cell of a point, in the specification's words: normalise \<open>(coord - min) / delta\<close>,
  round to the nearest integer, clamp to \<open>[0, dimension - 1]\<close>.
\<close>

definition clamp :: "int \<Rightarrow> int \<Rightarrow> int" where
  "clamp dimension v = (if v < 0 then 0 else if v > dimension - 1 then dimension - 1 else v)"

definition cell_x :: "'f fpu \<Rightarrow> 'f Guidemap \<Rightarrow> 'f complex128 \<Rightarrow> int" where
  "cell_x F g c =
     clamp (itsWidth g) (toInt F (Round F (fdiv F (fsub F (re c) (itsMinR g)) (itsDelR g))))"

definition cell_y :: "'f fpu \<Rightarrow> 'f Guidemap \<Rightarrow> 'f complex128 \<Rightarrow> int" where
  "cell_y F g c =
     clamp (itsHeight g) (toInt F (Round F (fdiv F (fsub F (im c) (itsMinI g)) (itsDelI g))))"

text \<open>
  The index that \<^verbatim>\<open>Mark\<close> and \<^verbatim>\<open>Check\<close> compute, with the source's four
  \<^verbatim>\<open>if\<close> statements in their order, and the guidemaps whose grid has as many cells as
  the width and the height say.
\<close>

definition flat_index :: "'f fpu \<Rightarrow> 'f Guidemap \<Rightarrow> 'f complex128 \<Rightarrow> int" where
  "flat_index F this c =
    (let x = toInt F (Round F (fdiv F (fsub F (re c) (itsMinR this)) (itsDelR this)));
         y = toInt F (Round F (fdiv F (fsub F (im c) (itsMinI this)) (itsDelI this)));
         x = (if x < 0 then 0 else x);
         x = (if x > itsWidth this - 1 then itsWidth this - 1 else x);
         y = (if y < 0 then 0 else y);
         y = (if y > itsHeight this - 1 then itsHeight this - 1 else y)
     in y * itsWidth this + x)"

definition grid_ok :: "'f Guidemap \<Rightarrow> bool" where
  "grid_ok g = (0 < itsWidth g \<and> 0 < itsHeight g \<and>
     length (itsData g) = nat (itsWidth g * itsHeight g))"

text \<open>
  Reading a payload back: successive pairs of 64-bit little-endian values, the bits of the
  real and of the imaginary component.
\<close>

definition Uint64 :: "byte list \<Rightarrow> 64 word" where
  "Uint64 b =
     ucast (b ! 0) OR push_bit 8 (ucast (b ! 1)) OR push_bit 16 (ucast (b ! 2))
     OR push_bit 24 (ucast (b ! 3)) OR push_bit 32 (ucast (b ! 4)) OR push_bit 40 (ucast (b ! 5))
     OR push_bit 48 (ucast (b ! 6)) OR push_bit 56 (ucast (b ! 7))"

function decode_payload :: "byte list \<Rightarrow> (64 word \<times> 64 word) list" where
  "decode_payload bs =
    (if length bs < 16 then []
     else (Uint64 (take 8 bs), Uint64 (take 8 (drop 8 bs))) # decode_payload (drop 16 bs))"
  by pat_completeness auto
termination
  by (relation "measure length") auto

text \<open>
  The payload, in the specification's words: for each seed, the real and then the imaginary
  component, each as eight little-endian bytes, nothing between them.
\<close>

definition encode :: "('f \<Rightarrow> 64 word) \<Rightarrow> 'f complex128 list \<Rightarrow> byte list" where
  "encode bits seeds = concat (map (\<lambda>c. PutUint64 (bits (re c)) @ PutUint64 (bits (im c))) seeds)"

text \<open>
  The order of the sorted seedpack, in the specification's words: non-decreasing by real
  part and, for equal real parts, non-decreasing by imaginary part; two seeds tie when both
  parts are equal.
\<close>

definition seed_le :: "'f fcmp \<Rightarrow> 'f complex128 \<Rightarrow> 'f complex128 \<Rightarrow> bool" where
  "seed_le C a b =
    (fle C (re a) (re b) \<and> (feq C (re a) (re b) \<longrightarrow> fle C (im a) (im b)))"

definition tie :: "'f fcmp \<Rightarrow> 'f complex128 \<Rightarrow> 'f complex128 \<Rightarrow> bool" where
  "tie C a b = (feq C (re a) (re b) \<and> feq C (im a) (im b))"

text \<open>
  The components of the seeds of a seedpack, and what the comparisons of floats satisfy on a
  set of floats none of which is NaN: \<^verbatim>\<open>==\<close> holds exactly when neither \<^verbatim>\<open><\<close>
  does, \<^verbatim>\<open><=\<close> is \<^verbatim>\<open><\<close> or \<^verbatim>\<open>==\<close>, and \<^verbatim>\<open><\<close> is asymmetric and its
  negation transitive.
\<close>

definition parts :: "'f complex128 list \<Rightarrow> 'f set" where
  "parts seeds = re ` set seeds \<union> im ` set seeds"

definition ordered :: "'f fcmp \<Rightarrow> 'f set \<Rightarrow> bool" where
  "ordered C S =
    ((\<forall>x \<in> S. \<forall>y \<in> S.
        (feq C x y \<longleftrightarrow> \<not> flt C x y \<and> \<not> flt C y x) \<and>
        (fle C x y \<longleftrightarrow> flt C x y \<or> feq C x y) \<and>
        (flt C x y \<longrightarrow> \<not> flt C y x)) \<and>
     (\<forall>x \<in> S. \<forall>y \<in> S. \<forall>z \<in> S. \<not> flt C x y \<and> \<not> flt C y z \<longrightarrow> \<not> flt C x z))"

text \<open>A comparison that is a strict weak order on a set.\<close>

definition swo :: "('a \<Rightarrow> 'a \<Rightarrow> bool) \<Rightarrow> 'a set \<Rightarrow> bool" where
  "swo less' A =
    ((\<forall>a \<in> A. \<forall>b \<in> A. less' a b \<longrightarrow> \<not> less' b a) \<and>
     (\<forall>a \<in> A. \<forall>b \<in> A. \<forall>c \<in> A. \<not> less' a b \<and> \<not> less' b c \<longrightarrow> \<not> less' a c))"

subsection \<open>Two arithmetics to run the program on\<close>

text \<open>
  Exact arithmetic on the reals.  On the inputs used below (small integers and fractions
  with a power of two as denominator) every intermediate value is a float, and IEEE-754
  arithmetic gives the same values.  \<^verbatim>\<open>math.Round\<close> rounds halves away from zero, and
  \<^verbatim>\<open>int(x)\<close> truncates.
\<close>

definition exact_cmp :: "real fcmp" where
  "exact_cmp = \<lparr>flt = (<), fle = (\<le>), feq = (=)\<rparr>"

definition exact :: "real fpu" where
  "exact = \<lparr>cmp = exact_cmp, fadd = (+), fsub = (-), fmul = (*), fdiv = (/),
     float64 = of_int,
     toInt = (\<lambda>x. if 0 \<le> x then \<lfloor>x\<rfloor> else \<lceil>x\<rceil>),
     Round = (\<lambda>x. if 0 \<le> x then of_int \<lfloor>x + 1 / 2\<rfloor> else of_int \<lceil>x - 1 / 2\<rceil>),
     Abs = (\<lambda>z. sqrt ((re z)\<^sup>2 + (im z)\<^sup>2))\<rparr>"

text \<open>
  The comparisons of IEEE-754 on the bits of a \<^verbatim>\<open>float64\<close>: the highest bit is the sign,
  the other 63 order the magnitudes, both zeros are equal, and a NaN (all eleven exponent
  bits set, the fraction not zero) is neither less than, nor equal to, nor greater than
  anything.
\<close>

definition ieee_nan :: "64 word \<Rightarrow> bool" where
  "ieee_nan w = (uint w mod 2 ^ 63 > 0x7FF0000000000000)"

definition ieee_key :: "64 word \<Rightarrow> int" where
  "ieee_key w = (if uint w < 2 ^ 63 then uint w else - (uint w mod 2 ^ 63))"

definition ieee_cmp :: "64 word fcmp" where
  "ieee_cmp =
    \<lparr>flt = (\<lambda>a b. \<not> ieee_nan a \<and> \<not> ieee_nan b \<and> ieee_key a < ieee_key b),
     fle = (\<lambda>a b. \<not> ieee_nan a \<and> \<not> ieee_nan b \<and> ieee_key a \<le> ieee_key b),
     feq = (\<lambda>a b. \<not> ieee_nan a \<and> \<not> ieee_nan b \<and> ieee_key a = ieee_key b)\<rparr>"

subsection \<open>The state of the outer loop\<close>

text \<open>
  The candidate that a pass of the outer loop draws when \<open>drawn\<close> values have been taken
  from the generator: \<^verbatim>\<open>complex(rand.Float64()*4-2, rand.Float64()*2)\<close>.
\<close>

definition candidate :: "'f fpu \<Rightarrow> (nat \<Rightarrow> 'f) \<Rightarrow> nat \<Rightarrow> 'f complex128" where
  "candidate F rand drawn =
     Cplx (fsub F (fmul F (rand drawn) (float64 F 4)) (float64 F 2))
          (fmul F (rand (drawn + 1)) (float64 F 2))"

text \<open>
  A point whose plain escape time, counted up to the ceiling \<open>l\<close>, lies in the requested
  range.  With \<open>l = max + 2\<close> this is the plain escape time of the specification,
  \<open>plain_depth\<close>; the ceiling of the program is \<open>wrap (max + 2)\<close>.
\<close>

definition in_range :: "'f fpu \<Rightarrow> int \<Rightarrow> int \<Rightarrow> int \<Rightarrow> 'f complex128 \<Rightarrow> bool" where
  "in_range F mindepth maxdepth l c =
     (mindepth \<le> escape_time F c l (czero F) 0 \<and> escape_time F c l (czero F) 0 \<le> maxdepth)"

text \<open>
  Positions \<open>ds\<close> of the generator, in increasing order, each between \<open>first\<close> and
  \<open>drawn\<close>, at which the candidate drawn has a plain escape time in the requested range.
\<close>

definition accepted_draws ::
  "'f fpu \<Rightarrow> (nat \<Rightarrow> 'f) \<Rightarrow> int \<Rightarrow> int \<Rightarrow> int \<Rightarrow> nat \<Rightarrow> nat \<Rightarrow> nat list \<Rightarrow> bool" where
  "accepted_draws F rand mindepth maxdepth l first drawn ds =
     (sorted_wrt (<) ds \<and>
      (\<forall>d \<in> set ds. first \<le> d \<and> d + 2 \<le> drawn \<and>
         in_range F mindepth maxdepth l (candidate F rand d)))"

text \<open>
  What holds of the variables of the outer loop at the label \<^verbatim>\<open>CheckNewC\<close> and when
  the loop is left: \<open>sidx\<close> and \<open>found\<close> agree, the seedpack keeps its length, the
  observed depths are in the requested range, and the slots filled so far hold, in the order
  drawn, candidates whose plain escape time up to the program's ceiling is in the range.
  \<open>mining_post\<close> is what holds of the loop's result.
\<close>

definition mining_inv ::
  "'f fpu \<Rightarrow> (nat \<Rightarrow> 'f) \<Rightarrow> int \<Rightarrow> int \<Rightarrow> int \<Rightarrow> nat \<Rightarrow> 'f mining \<Rightarrow> bool" where
  "mining_inv F rand howmany mindepth maxdepth first s =
    (case s of (seeds, sidx, guidemap, found, realmin, realmax, j, drawn) \<Rightarrow>
       grid_ok guidemap \<and> sidx = found \<and> 0 \<le> found \<and> found \<le> howmany \<and>
       length seeds = nat howmany \<and>
       mindepth \<le> realmin \<and> realmin \<le> maxdepth \<and>
       mindepth \<le> realmax \<and> realmax \<le> maxdepth \<and>
       (\<exists>ds. length ds = nat found \<and>
             accepted_draws F rand mindepth maxdepth (wrap (maxdepth + 2)) first drawn ds \<and>
             take (nat found) seeds = map (candidate F rand) ds))"

definition mining_post ::
  "'f fpu \<Rightarrow> (nat \<Rightarrow> 'f) \<Rightarrow> int \<Rightarrow> int \<Rightarrow> int \<Rightarrow> nat \<Rightarrow> (panic + 'f mining) \<times> nat \<Rightarrow> bool" where
  "mining_post F rand howmany mindepth maxdepth first r =
    (\<exists>seeds' sidx' guidemap' found' realmin' realmax' j' drawn'.
      r = (Inr (seeds', sidx', guidemap', found', realmin', realmax', j', drawn'), drawn') \<and>
      found' = howmany \<and>
      mining_inv F rand howmany mindepth maxdepth first
        (seeds', sidx', guidemap', found', realmin', realmax', j', drawn'))"

text \<open>
  A generator for the examples: the values \<open>0, 0\<close> give the candidate \<open>-2\<close>, the values
  \<open>3/4, 1/2\<close> the candidate \<open>1 + i\<close>, the values \<open>1/4, 0\<close> the candidate \<open>-1\<close>.
\<close>

definition rand3 :: "nat \<Rightarrow> real" where
  "rand3 = (\<lambda>n. 0)(0 := 0, 1 := 0, 2 := 3 / 4, 3 := 1 / 2, 4 := 1 / 4, 5 := 0,
     6 := 3 / 4, 7 := 1 / 2)"

section \<open>The arithmetic of int\<close>

lemma wrap_id: "- (2 ^ 63) \<le> i \<Longrightarrow> i < 2 ^ 63 \<Longrightarrow> wrap i = i"
proof -
  assume a: "- (2 ^ 63) \<le> i" "i < 2 ^ 63"
  have "(i + 2 ^ 63) mod 2 ^ 64 = i + 2 ^ 63"
    using a by (intro mod_pos_pos_trivial) simp_all
  then show ?thesis
    unfolding wrap_def by simp
qed

lemma wrap_range: "- (2 ^ 63) \<le> wrap i \<and> wrap i \<le> MaxInt"
proof -
  have "0 \<le> (i + 2 ^ 63) mod (2 ^ 64 :: int)" and "(i + 2 ^ 63) mod (2 ^ 64 :: int) < 2 ^ 64"
    by (rule pos_mod_sign, simp) (rule pos_mod_bound, simp)
  moreover have "(2 :: int) ^ 64 = 2 * 2 ^ 63"
    by simp
  ultimately show ?thesis
    unfolding wrap_def MaxInt_def by linarith
qed

lemma wrap_over: "2 ^ 63 \<le> i \<Longrightarrow> i < 2 ^ 64 \<Longrightarrow> wrap i = i - 2 ^ 64"
proof -
  assume a: "2 ^ 63 \<le> i" "i < 2 ^ 64"
  have "(i + 2 ^ 63) mod 2 ^ 64 = (i + 2 ^ 63 - 2 ^ 64) mod (2 ^ 64 :: int)"
    by (rule minus_mod_self2 [symmetric])
  also have "\<dots> = i + 2 ^ 63 - 2 ^ 64"
    using a by (intro mod_pos_pos_trivial) simp_all
  finally show ?thesis
    unfolding wrap_def by simp
qed

lemma wrap_le: "- (2 ^ 63) \<le> i \<Longrightarrow> wrap i \<le> i"
proof -
  assume a: "- (2 ^ 63) \<le> i"
  have "(i + 2 ^ 63) mod 2 ^ 64 \<le> i + 2 ^ 63"
    using a by (intro zmod_le_nonneg_dividend) simp
  then show ?thesis
    unfolding wrap_def by simp
qed

section \<open>Guidemap: both methods stay inside the grid\<close>

lemma clamp_range: "0 < d \<Longrightarrow> 0 \<le> clamp d v \<and> clamp d v \<le> d - 1"
  by (simp add: clamp_def)

lemma flat_index_bound:
  fixes x y w h :: int
  assumes "0 \<le> x" "x \<le> w - 1" "0 \<le> y" "y \<le> h - 1"
  shows "0 \<le> y * w + x \<and> y * w + x < w * h"
proof -
  have w: "0 \<le> w" using assms by linarith
  have "y * w \<le> (h - 1) * w"
    using assms(4) w by (rule mult_right_mono)
  then have "y * w + x \<le> (h - 1) * w + (w - 1)"
    using assms(2) by linarith
  also have "\<dots> = w * h - 1" by (simp add: algebra_simps)
  finally have "y * w + x < w * h" by simp
  moreover have "0 \<le> y * w" using assms(3) w by simp
  ultimately show ?thesis using assms(1) by simp
qed

lemma Mark_flat:
  "Mark F g c =
    (if 0 \<le> flat_index F g c \<and> flat_index F g c < int (length (itsData g))
     then Inr (g\<lparr>itsData := (itsData g)[nat (flat_index F g c) := True]\<rparr>)
     else Inl IndexOutOfRange)"
  unfolding Mark_def flat_index_def Let_def by (rule refl)

lemma Check_flat:
  "Check F g c =
    (if 0 \<le> flat_index F g c \<and> flat_index F g c < int (length (itsData g))
     then Inr (itsData g ! nat (flat_index F g c))
     else Inl IndexOutOfRange)"
  unfolding Check_def flat_index_def Let_def by (rule refl)

lemma flat_index_data [simp]: "flat_index F (g\<lparr>itsData := d\<rparr>) c = flat_index F g c"
  by (simp add: flat_index_def Let_def)

lemma flat_index_cell:
  "0 < itsWidth g \<Longrightarrow> 0 < itsHeight g \<Longrightarrow>
   flat_index F g c = cell_y F g c * itsWidth g + cell_x F g c"
  by (simp add: flat_index_def cell_x_def cell_y_def clamp_def Let_def)

lemma cell_in_grid:
  assumes "grid_ok g"
  shows "0 \<le> cell_y F g c * itsWidth g + cell_x F g c \<and>
         cell_y F g c * itsWidth g + cell_x F g c < int (length (itsData g))"
proof -
  have x: "0 \<le> cell_x F g c \<and> cell_x F g c \<le> itsWidth g - 1"
    unfolding cell_x_def using assms by (intro clamp_range) (simp add: grid_ok_def)
  have y: "0 \<le> cell_y F g c \<and> cell_y F g c \<le> itsHeight g - 1"
    unfolding cell_y_def using assms by (intro clamp_range) (simp add: grid_ok_def)
  have "0 \<le> cell_y F g c * itsWidth g + cell_x F g c \<and>
        cell_y F g c * itsWidth g + cell_x F g c < itsWidth g * itsHeight g"
    using x y by (intro flat_index_bound) simp_all
  moreover have "int (length (itsData g)) = itsWidth g * itsHeight g"
    using assms by (simp add: grid_ok_def)
  ultimately show ?thesis by simp
qed

text \<open>
  Claim C9.  For a guidemap whose grid has \<open>itsWidth * itsHeight\<close> cells, both positive
  (every guidemap the program builds, see \<open>GenerateGuidemap_grid_ok\<close>), and for every
  point, inside the domain or not: \<^verbatim>\<open>Mark\<close> and \<^verbatim>\<open>Check\<close> use the cell that
  normalising, rounding and clamping give, its column is in \<open>[0, itsWidth - 1]\<close> and its
  row in \<open>[0, itsHeight - 1]\<close>, the flat index \<open>y * itsWidth + x\<close> is within the grid,
  and neither method panics.
\<close>

theorem guidemap_clamped:
  assumes "grid_ok g"
  shows "0 \<le> cell_x F g c \<and> cell_x F g c \<le> itsWidth g - 1 \<and>
         0 \<le> cell_y F g c \<and> cell_y F g c \<le> itsHeight g - 1 \<and>
         nat (cell_y F g c * itsWidth g + cell_x F g c) < length (itsData g) \<and>
         Mark F g c =
           Inr (g\<lparr>itsData := (itsData g)[nat (cell_y F g c * itsWidth g + cell_x F g c) := True]\<rparr>) \<and>
         Check F g c = Inr (itsData g ! nat (cell_y F g c * itsWidth g + cell_x F g c))"
proof -
  have x: "0 \<le> cell_x F g c \<and> cell_x F g c \<le> itsWidth g - 1"
    unfolding cell_x_def using assms by (intro clamp_range) (simp add: grid_ok_def)
  have y: "0 \<le> cell_y F g c \<and> cell_y F g c \<le> itsHeight g - 1"
    unfolding cell_y_def using assms by (intro clamp_range) (simp add: grid_ok_def)
  note k = cell_in_grid [OF assms, of F c]
  have "nat (cell_y F g c * itsWidth g + cell_x F g c) < length (itsData g)"
    using k by linarith
  moreover have "Mark F g c =
      Inr (g\<lparr>itsData := (itsData g)[nat (cell_y F g c * itsWidth g + cell_x F g c) := True]\<rparr>)"
    using k assms by (simp add: Mark_flat flat_index_cell grid_ok_def)
  moreover have "Check F g c = Inr (itsData g ! nat (cell_y F g c * itsWidth g + cell_x F g c))"
    using k assms by (simp add: Check_flat flat_index_cell grid_ok_def)
  ultimately show ?thesis using x y by simp
qed

lemma grid_ok_New: "0 < n \<Longrightarrow> n * n < 2 ^ 63 \<Longrightarrow> grid_ok (NewGuidemap F n)"
proof -
  assume n: "0 < n" "n * n < 2 ^ 63"
  have "- (2 ^ 63) \<le> (0 :: int)" by simp
  also have "0 \<le> n * n" by simp
  finally have "wrap (n * n) = n * n"
    using n(2) by (rule wrap_id)
  then show ?thesis
    using n(1) by (simp add: grid_ok_def NewGuidemap_def)
qed

lemma grid_ok_51: "grid_ok (NewGuidemap F 51)"
  by (rule grid_ok_New) simp_all

lemma data_51: "itsData (NewGuidemap F 51) = replicate 2601 False"
  by (simp add: NewGuidemap_def wrap_def)

text \<open>
  The corner \<open>2 + 2i\<close> of the domain on a fresh grid of 51 by 51 cells: column 51 is
  clamped to 50, the cell is the last one, number 2600.
\<close>

theorem guidemap_clamped_witness:
  "grid_ok (NewGuidemap exact 51) \<and>
   cell_x exact (NewGuidemap exact 51) (Cplx 2 2) = 50 \<and>
   cell_y exact (NewGuidemap exact 51) (Cplx 2 2) = 50 \<and>
   Check exact (NewGuidemap exact 51) (Cplx 2 2) = Inr False"
proof -
  have ok: "grid_ok (NewGuidemap exact 51)"
    by (rule grid_ok_51)
  have x: "cell_x exact (NewGuidemap exact 51) (Cplx 2 2) = 50"
    by (simp add: cell_x_def clamp_def NewGuidemap_def exact_def)
  have y: "cell_y exact (NewGuidemap exact 51) (Cplx 2 2) = 50"
    by (simp add: cell_y_def clamp_def NewGuidemap_def exact_def)
  have "Check exact (NewGuidemap exact 51) (Cplx 2 2) =
      Inr (itsData (NewGuidemap exact 51) ! nat (50 * itsWidth (NewGuidemap exact 51) + 50))"
    using guidemap_clamped [OF ok, of exact "Cplx 2 2"] by (simp add: x y)
  then have "Check exact (NewGuidemap exact 51) (Cplx 2 2) = Inr False"
    by (simp add: data_51) (simp add: NewGuidemap_def)
  then show ?thesis using ok x y by simp
qed

lemma Mark_grid_ok:
  assumes "grid_ok g"
  shows "\<exists>g'. Mark F g c = Inr g' \<and> grid_ok g'"
proof -
  have "0 \<le> flat_index F g c \<and> flat_index F g c < int (length (itsData g))"
    using cell_in_grid [OF assms, of F c] assms by (simp add: flat_index_cell grid_ok_def)
  then show ?thesis
    using assms by (simp add: Mark_flat grid_ok_def)
qed

text \<open>
  Claim C10.  \<^verbatim>\<open>Mark\<close> and \<^verbatim>\<open>Check\<close> map a point to the same cell.  On a guidemap
  with a proper grid \<^verbatim>\<open>Mark\<close> marks every point.  On any guidemap, whenever
  \<^verbatim>\<open>Mark\<close> has marked a point, \<^verbatim>\<open>Check\<close> of the same point on the marked
  guidemap returns true; and there is one cell \<open>k\<close> of the grid such that \<^verbatim>\<open>Mark\<close>
  changes the guidemap by setting cell \<open>k\<close> and nothing else, \<^verbatim>\<open>Check\<close> of the
  same point returns what cell \<open>k\<close> holds, before the mark and for any other contents of
  the grid, and \<open>k\<close> is the cell that normalising, rounding and clamping give when the
  grid is proper.  \<^verbatim>\<open>Mark\<close> panics exactly when \<^verbatim>\<open>Check\<close> does: when that one
  index is outside the grid.
\<close>

theorem check_after_mark:
  "(grid_ok g \<longrightarrow> (\<exists>g'. Mark F g c = Inr g' \<and> grid_ok g')) \<and>
   (\<forall>g'. Mark F g c = Inr g' \<longrightarrow> Check F g' c = Inr True) \<and>
   (\<forall>g'. Mark F g c = Inr g' \<longrightarrow>
      (\<exists>k < length (itsData g).
         g' = g\<lparr>itsData := (itsData g)[k := True]\<rparr> \<and>
         Check F g c = Inr (itsData g ! k) \<and>
         (\<forall>d. length d = length (itsData g) \<longrightarrow> Check F (g\<lparr>itsData := d\<rparr>) c = Inr (d ! k)) \<and>
         (grid_ok g \<longrightarrow> k = nat (cell_y F g c * itsWidth g + cell_x F g c)))) \<and>
   (Mark F g c = Inl IndexOutOfRange \<longleftrightarrow> Check F g c = Inl IndexOutOfRange) \<and>
   (\<forall>e. Mark F g c = Inl e \<or> Check F g c = Inl e \<longrightarrow> e = IndexOutOfRange)"
proof (intro conjI impI allI)
  assume "grid_ok g"
  then show "\<exists>g'. Mark F g c = Inr g' \<and> grid_ok g'"
    by (rule Mark_grid_ok)
next
  fix g'
  assume m: "Mark F g c = Inr g'"
  let ?k = "flat_index F g c"
  from m have k: "0 \<le> ?k \<and> ?k < int (length (itsData g))"
    and g': "g' = g\<lparr>itsData := (itsData g)[nat ?k := True]\<rparr>"
    by (auto simp: Mark_flat split: if_splits)
  have "nat ?k < length (itsData g)" using k by linarith
  then show "Check F g' c = Inr True"
    using k by (simp add: Check_flat g')
next
  fix g'
  assume m: "Mark F g c = Inr g'"
  let ?k = "flat_index F g c"
  from m have k: "0 \<le> ?k \<and> ?k < int (length (itsData g))"
    and g': "g' = g\<lparr>itsData := (itsData g)[nat ?k := True]\<rparr>"
    by (auto simp: Mark_flat split: if_splits)
  have lt: "nat ?k < length (itsData g)" using k by linarith
  have here: "Check F g c = Inr (itsData g ! nat ?k)"
    using k by (simp add: Check_flat)
  have any: "\<forall>d. length d = length (itsData g) \<longrightarrow>
      Check F (g\<lparr>itsData := d\<rparr>) c = Inr (d ! nat ?k)"
    using k by (simp add: Check_flat)
  have cell: "grid_ok g \<longrightarrow> nat ?k = nat (cell_y F g c * itsWidth g + cell_x F g c)"
    by (simp add: flat_index_cell grid_ok_def)
  show "\<exists>k < length (itsData g).
      g' = g\<lparr>itsData := (itsData g)[k := True]\<rparr> \<and>
      Check F g c = Inr (itsData g ! k) \<and>
      (\<forall>d. length d = length (itsData g) \<longrightarrow> Check F (g\<lparr>itsData := d\<rparr>) c = Inr (d ! k)) \<and>
      (grid_ok g \<longrightarrow> k = nat (cell_y F g c * itsWidth g + cell_x F g c))"
    using lt g' here any cell by (intro exI [of _ "nat ?k"]) blast
next
  show "Mark F g c = Inl IndexOutOfRange \<longleftrightarrow> Check F g c = Inl IndexOutOfRange"
    by (simp add: Mark_flat Check_flat)
next
  fix e
  assume "Mark F g c = Inl e \<or> Check F g c = Inl e"
  then show "e = IndexOutOfRange"
    by (auto simp: Mark_flat Check_flat split: if_splits)
qed

text \<open>
  The point \<open>1 + i\<close> falls into column 38 of row 38, cell 1976: \<^verbatim>\<open>Check\<close> finds it
  unmarked on the fresh grid and marked after \<^verbatim>\<open>Mark\<close>.
\<close>

theorem check_after_mark_witness:
  "grid_ok (NewGuidemap exact 51) \<and>
   Mark exact (NewGuidemap exact 51) (Cplx 1 1) =
     Inr ((NewGuidemap exact 51)\<lparr>itsData := (replicate 2601 False)[1976 := True]\<rparr>) \<and>
   nat (cell_y exact (NewGuidemap exact 51) (Cplx 1 1) * itsWidth (NewGuidemap exact 51) +
        cell_x exact (NewGuidemap exact 51) (Cplx 1 1)) = 1976 \<and>
   Check exact (NewGuidemap exact 51) (Cplx 1 1) = Inr False \<and>
   Check exact ((NewGuidemap exact 51)\<lparr>itsData := (replicate 2601 False)[1976 := True]\<rparr>)
     (Cplx 1 1) = Inr True"
proof -
  have ok: "grid_ok (NewGuidemap exact 51)"
    by (rule grid_ok_51)
  have k: "flat_index exact (NewGuidemap exact 51) (Cplx 1 1) = 1976"
    by (simp add: flat_index_def NewGuidemap_def exact_def Let_def)
  have m: "Mark exact (NewGuidemap exact 51) (Cplx 1 1) =
      Inr ((NewGuidemap exact 51)\<lparr>itsData := (replicate 2601 False)[1976 := True]\<rparr>)"
    by (simp add: Mark_flat k data_51)
  have cell: "nat (cell_y exact (NewGuidemap exact 51) (Cplx 1 1) * itsWidth (NewGuidemap exact 51) +
      cell_x exact (NewGuidemap exact 51) (Cplx 1 1)) = 1976"
    using flat_index_cell [of "NewGuidemap exact 51" exact "Cplx 1 1"] k
    by (simp add: NewGuidemap_def)
  have c: "Check exact (NewGuidemap exact 51) (Cplx 1 1) = Inr False"
    by (simp add: Check_flat k data_51)
  show ?thesis
    using ok m cell c check_after_mark [of "NewGuidemap exact 51" exact "Cplx 1 1"] by blast
qed

section \<open>The inner loop\<close>

declare IterateZ.simps [simp del] escape_time.simps [simp del]

lemma IterateZ_body_Goto:
  assumes "IterateZ_body F g c l z oldz i r rs = Goto (z', oldz', i', r', rs')"
  shows "z' = cadd F (cmul F z z) c \<and> i' = i + 1 \<and> i' < l \<and> bounded F z'"
  using assms
  by (auto simp: IterateZ_body_def IterateZ_next_def Let_def split: if_splits sum.splits)


lemma IterateZ_body_Leave:
  assumes "IterateZ_body F g c l z oldz i r rs = Leave i'"
  shows "i' = - 1 \<or> (i' = i + 1 \<and> \<not> (i + 1 < l \<and> bounded F (cadd F (cmul F z z) c)))"
  using assms
  by (auto simp: IterateZ_body_def IterateZ_next_def Let_def split: if_splits sum.splits)


lemma IterateZ_body_Panicking:
  assumes "IterateZ_body F g c l z oldz i r rs = Panicking e"
  shows "Check F g c = Inl e"
  using assms
  by (auto simp: IterateZ_body_def IterateZ_next_def Let_def split: if_splits sum.splits)

lemma Check_grid_ok: "grid_ok g \<Longrightarrow> \<exists>b. Check F g c = Inr b"
  using cell_in_grid [of g F c] by (simp add: Check_flat flat_index_cell grid_ok_def)

text \<open>
  On a guidemap with a proper grid the inner loop does not panic; it returns after at most
  \<open>l\<close> executions of the recurrence, with \<open>-1\<close> or with the number of executions.
\<close>

lemma IterateZ_returns:
  assumes "grid_ok g" "0 \<le> i" "i < l" "int n = i"
  shows "\<exists>i' n'. IterateZ F g c l z oldz i r rs n = Inr (i', n') \<and> n < n' \<and> int n' \<le> l \<and>
           (i' = - 1 \<or> i' = int n')"
  using assms
proof (induction F g c l z oldz i r rs n rule: IterateZ.induct)
  case (1 F guidemap c l z oldz i repcheck repcheckstart n)
  show ?case
  proof (cases "IterateZ_body F guidemap c l z oldz i repcheck repcheckstart")
    case (Goto s)
    obtain z' oldz' i' r' rs' where s: "s = (z', oldz', i', r', rs')"
      by (cases s) auto
    note b = IterateZ_body_Goto [OF Goto [unfolded s]]
    have "\<exists>i'' n'. IterateZ F guidemap c l z' oldz' i' r' rs' (Suc n) = Inr (i'', n') \<and>
        Suc n < n' \<and> int n' \<le> l \<and> (i'' = - 1 \<or> i'' = int n')"
      using "1.IH" [OF Goto [unfolded s] refl refl refl refl] "1.prems" b by simp
    then show ?thesis
      using Goto s by (subst IterateZ.simps) auto
  next
    case (Leave i')
    note b = IterateZ_body_Leave [OF Leave]
    show ?thesis
      using Leave b "1.prems" by (subst IterateZ.simps) auto
  next
    case (Panicking e)
    then show ?thesis
      using IterateZ_body_Panicking [OF Panicking] Check_grid_ok [OF "1.prems"(1), of F c] by simp
  qed
qed

text \<open>
  With a ceiling \<open>l\<close> of at most 1, and so with a negative one, the loop as \<^verbatim>\<open>Mine\<close>
  enters it makes one pass: it is left with \<open>i = 1\<close>.
\<close>

lemma IterateZ_once:
  assumes "l \<le> 1"
  shows "IterateZ F g c l z oldz 0 2 2 0 = Inr (1, 1)"
  using assms
  by (subst IterateZ.simps) (simp add: IterateZ_body_def IterateZ_next_def Let_def)

lemma evaluate_wrapped:
  assumes "MaxInt < maxdepth + 2" and "maxdepth \<le> MaxInt"
  shows "evaluate F g c maxdepth = Inr (1, 1)"
proof -
  have "wrap (maxdepth + 2) = maxdepth + 2 - 2 ^ 64"
    using assms by (intro wrap_over) (simp_all add: MaxInt_def)
  then have "wrap (maxdepth + 2) \<le> 1"
    using assms(2) by (simp add: MaxInt_def)
  then show ?thesis
    unfolding evaluate_def by (rule IterateZ_once)
qed

lemma evaluate_unwrapped:
  assumes "- 1 \<le> maxdepth" and "maxdepth + 2 \<le> MaxInt"
  shows "wrap (maxdepth + 2) = maxdepth + 2"
  using assms by (intro wrap_id) (simp_all add: MaxInt_def)

lemma evaluate_returns:
  assumes "grid_ok g" and "- 1 \<le> maxdepth"
  shows "\<exists>i n. evaluate F g c maxdepth = Inr (i, n) \<and> 1 \<le> n \<and> int n \<le> maxdepth + 2 \<and>
           (i = - 1 \<or> i = int n)"
proof (cases "wrap (maxdepth + 2) \<le> 1")
  case True
  have "evaluate F g c maxdepth = Inr (1, 1)"
    unfolding evaluate_def using True by (rule IterateZ_once)
  then show ?thesis
    using assms(2) by simp
next
  case False
  have "- (2 ^ 63) \<le> maxdepth + 2"
    using assms(2) by simp
  then have le: "wrap (maxdepth + 2) \<le> maxdepth + 2"
    by (rule wrap_le)
  have "\<exists>i' n'. IterateZ F g c (wrap (maxdepth + 2)) (czero F) (czero F) 0 2 2 0 = Inr (i', n') \<and>
      0 < n' \<and> int n' \<le> wrap (maxdepth + 2) \<and> (i' = - 1 \<or> i' = int n')"
    by (rule IterateZ_returns) (use assms False in simp_all)
  then show ?thesis
    using le by (auto simp: evaluate_def)
qed

text \<open>
  The counter \<open>i\<close> stays an \<^verbatim>\<open>int\<close>: each pass adds one to it, and the value with
  which the loop is left is \<open>-1\<close> or at most the larger of \<open>l\<close> and \<open>i + 1\<close>, where
  \<open>l\<close> is an \<^verbatim>\<open>int\<close>.  So \<^verbatim>\<open>i++\<close> never wraps around.
\<close>

lemma IterateZ_range:
  assumes "IterateZ F g c l z oldz i r rs n = Inr (i', n')"
  shows "i' = - 1 \<or> (i < i' \<and> i' \<le> max l (i + 1))"
  using assms
proof (induction F g c l z oldz i r rs n rule: IterateZ.induct)
  case (1 F guidemap c l z oldz i repcheck repcheckstart n)
  show ?case
  proof (cases "IterateZ_body F guidemap c l z oldz i repcheck repcheckstart")
    case (Goto s)
    obtain z' oldz' i'' r' rs' where s: "s = (z', oldz', i'', r', rs')"
      by (cases s) auto
    note b = IterateZ_body_Goto [OF Goto [unfolded s]]
    have run: "IterateZ F guidemap c l z' oldz' i'' r' rs' (Suc n) = Inr (i', n')"
      using "1.prems"(1) Goto s by (subst (asm) IterateZ.simps) simp
    have "i' = - 1 \<or> (i'' < i' \<and> i' \<le> max l (i'' + 1))"
      using "1.IH" [OF Goto [unfolded s] refl refl refl refl run] .
    moreover have "i'' = i + 1" "i'' < l"
      using b by blast+
    ultimately show ?thesis by auto
  next
    case (Leave k)
    have "k = i'"
      using "1.prems"(1) Leave by (subst (asm) IterateZ.simps) simp
    then show ?thesis
      using IterateZ_body_Leave [OF Leave] by auto
  next
    case (Panicking e)
    then show ?thesis
      using "1.prems"(1) by (subst (asm) IterateZ.simps) simp
  qed
qed

lemma evaluate_int:
  assumes "evaluate F g c maxdepth = Inr (i, n)"
  shows "- 1 \<le> i \<and> i \<le> MaxInt"
proof -
  have "i = - 1 \<or> (0 < i \<and> i \<le> max (wrap (maxdepth + 2)) (0 + 1))"
    by (rule IterateZ_range [OF assms [unfolded evaluate_def]])
  moreover have "wrap (maxdepth + 2) \<le> MaxInt"
    using wrap_range [of "maxdepth + 2"] by simp
  ultimately show ?thesis
    by (auto simp: MaxInt_def)
qed

lemmas run_IterateZ =
  evaluate_def wrap_def IterateZ.simps IterateZ_body_def IterateZ_next_def Let_def
  cadd_def cmul_def ceq_def czero_def bounded_def norm2_def exact_def exact_cmp_def

text \<open>
  Claim C4.  Within \<^verbatim>\<open>Mine\<close> the inner loop runs on a guidemap with a proper grid and
  with a ceiling \<open>max\<close> that has passed the checks of the configuration (\<open>2 \<le> min \<le> max\<close>;
  \<open>-1 \<le> max\<close> is all the bound needs).  There, for every candidate, the loop returns, and
  the recurrence \<^verbatim>\<open>z = z*z + c\<close> has been executed at least once and at most
  \<open>max + 2\<close> times.  This holds also where \<^verbatim>\<open>max + 2\<close> wraps around: the loop then
  makes one pass.
\<close>

theorem evaluate_steps:
  assumes "grid_ok g" and "- 1 \<le> maxdepth"
  shows "\<exists>i n. evaluate F g c maxdepth = Inr (i, n) \<and> 1 \<le> n \<and> int n \<le> maxdepth + 2"
  using evaluate_returns [OF assms, of F c] by blast

text \<open>
  The candidate \<open>-1\<close> with ceiling 2: its orbit \<open>-1, 0, -1, 0\<close> never leaves the disc,
  and the loop stops after \<open>2 + 2\<close> executions.  With the ceiling \<open>2 ^ 63 - 1\<close> the
  loop stops after one.
\<close>

theorem evaluate_steps_witness:
  "grid_ok (NewGuidemap exact 51) \<and> (- 1 :: int) \<le> 2 \<and>
   evaluate exact (NewGuidemap exact 51) (Cplx (- 1) 0) 2 = Inr (4, 4) \<and>
   (\<exists>i n. evaluate exact (NewGuidemap exact 51) (Cplx (- 1) 0) 2 = Inr (i, n) \<and>
      1 \<le> n \<and> int n \<le> 2 + 2) \<and>
   (- 1 :: int) \<le> 9223372036854775807 \<and>
   evaluate exact (NewGuidemap exact 51) (Cplx (- 1) 0) 9223372036854775807 = Inr (1, 1) \<and>
   (\<exists>i n. evaluate exact (NewGuidemap exact 51) (Cplx (- 1) 0) 9223372036854775807 = Inr (i, n) \<and>
      1 \<le> n \<and> int n \<le> 9223372036854775807 + 2)"
proof -
  have ok: "grid_ok (NewGuidemap exact 51)"
    by (rule grid_ok_51)
  have run: "evaluate exact (NewGuidemap exact 51) (Cplx (- 1) 0) 2 = Inr (4, 4)"
    by (simp add: run_IterateZ)
  have once: "evaluate exact (NewGuidemap exact 51) (Cplx (- 1) 0) 9223372036854775807 = Inr (1, 1)"
    by (rule evaluate_wrapped) (simp_all add: MaxInt_def)
  show ?thesis
    using ok run once evaluate_steps [OF ok, of 2 exact "Cplx (- 1) 0"]
      evaluate_steps [OF ok, of 9223372036854775807 exact "Cplx (- 1) 0"]
    by simp
qed

lemma IterateZ_escape_time:
  assumes "IterateZ F g c l z oldz i r rs n = Inr (i', n')" and "i' \<noteq> - 1"
  shows "escape_time F c l z i = i'"
  using assms
proof (induction F g c l z oldz i r rs n rule: IterateZ.induct)
  case (1 F guidemap c l z oldz i repcheck repcheckstart n)
  show ?case
  proof (cases "IterateZ_body F guidemap c l z oldz i repcheck repcheckstart")
    case (Goto s)
    obtain z' oldz' i'' r' rs' where s: "s = (z', oldz', i'', r', rs')"
      by (cases s) auto
    note b = IterateZ_body_Goto [OF Goto [unfolded s]]
    have run: "IterateZ F guidemap c l z' oldz' i'' r' rs' (Suc n) = Inr (i', n')"
      using "1.prems"(1) Goto s by (subst (asm) IterateZ.simps) simp
    have ih: "escape_time F c l z' i'' = i'"
      using "1.IH" [OF Goto [unfolded s] refl refl refl refl run "1.prems"(2)] .
    have z': "cadd F (cmul F z z) c = z'" and i'': "i + 1 = i''"
      and go: "i'' < l" "bounded F z'"
      using b by blast+
    have "escape_time F c l z i = escape_time F c l z' i''"
      by (subst escape_time.simps) (simp add: Let_def z' i'' go)
    then show ?thesis using ih by simp
  next
    case (Leave k)
    have "k = i'"
      using "1.prems"(1) Leave by (subst (asm) IterateZ.simps) simp
    then show ?thesis
      using IterateZ_body_Leave [OF Leave] "1.prems"(2)
      by (subst escape_time.simps) (auto simp: Let_def)
  next
    case (Panicking e)
    then show ?thesis
      using "1.prems"(1) by (subst (asm) IterateZ.simps) simp
  qed
qed

lemma evaluate_escape_time:
  assumes "evaluate F g c maxdepth = Inr (i, n)" and "i \<noteq> - 1"
  shows "escape_time F c (wrap (maxdepth + 2)) (czero F) 0 = i"
  using IterateZ_escape_time [OF assms(1) [unfolded evaluate_def] assms(2)] .

text \<open>
  For a valid configuration whose \<open>max\<close> is an \<^verbatim>\<open>int\<close>, a plain escape time in
  \<open>[min, max]\<close> under the program's ceiling is one under the ceiling \<open>max + 2\<close> of the
  specification: either the two ceilings are equal, or the program's is negative and its
  escape time is \<open>1\<close>, below \<open>min\<close>.
\<close>

lemma escape_time_once: "l \<le> 1 \<Longrightarrow> escape_time F c l z 0 = 1"
  by (subst escape_time.simps) (simp add: Let_def)

lemma in_range_plain:
  assumes "2 \<le> mindepth" and "mindepth \<le> maxdepth" and "maxdepth \<le> MaxInt"
    and "in_range F mindepth maxdepth (wrap (maxdepth + 2)) c"
  shows "in_range F mindepth maxdepth (maxdepth + 2) c"
proof (cases "maxdepth + 2 \<le> MaxInt")
  case True
  then have "wrap (maxdepth + 2) = maxdepth + 2"
    using assms(1,2) by (intro evaluate_unwrapped) simp_all
  then show ?thesis using assms(4) by simp
next
  case False
  then have "wrap (maxdepth + 2) = maxdepth + 2 - 2 ^ 64"
    using assms(3) by (intro wrap_over) (simp_all add: MaxInt_def)
  then have "wrap (maxdepth + 2) \<le> 1"
    using assms(3) by (simp add: MaxInt_def)
  then have "escape_time F c (wrap (maxdepth + 2)) (czero F) 0 = 1"
    by (rule escape_time_once)
  then show ?thesis
    using assms(1,4) by (simp add: in_range_def)
qed








section \<open>The outer loop\<close>

lemma accepted_draws_snoc:
  assumes "accepted_draws F rand mindepth maxdepth l first drawn ds"
    and "first \<le> drawn" and "in_range F mindepth maxdepth l (candidate F rand drawn)"
  shows "accepted_draws F rand mindepth maxdepth l first (drawn + 2) (ds @ [drawn])"
  using assms by (fastforce simp: accepted_draws_def sorted_wrt_append)

lemma accepted_draws_mono:
  assumes "accepted_draws F rand mindepth maxdepth l first drawn ds"
  shows "accepted_draws F rand mindepth maxdepth l first (drawn + 2) ds"
  using assms by (fastforce simp: accepted_draws_def)

lemma accepted_draws_plain:
  assumes "2 \<le> mindepth" and "mindepth \<le> maxdepth" and "maxdepth \<le> MaxInt"
    and "accepted_draws F rand mindepth maxdepth (wrap (maxdepth + 2)) first drawn ds"
  shows "accepted_draws F rand mindepth maxdepth (maxdepth + 2) first drawn ds"
  using assms(4) in_range_plain [OF assms(1-3)] by (auto simp: accepted_draws_def)

lemma CheckNewC_body_inv:
  assumes inv: "mining_inv F rand howmany mindepth maxdepth first
      (seeds, sidx, guidemap, found, realmin, realmax, j, drawn)"
    and more: "found < howmany" and cfg: "2 \<le> mindepth" "mindepth \<le> maxdepth"
    and first: "first \<le> drawn"
  shows "\<exists>seeds' sidx' guidemap' found' realmin' realmax' j'.
    mining_inv F rand howmany mindepth maxdepth first
      (seeds', sidx', guidemap', found', realmin', realmax', j', drawn + 2) \<and>
    (CheckNewC_body F rand howmany mindepth maxdepth
        seeds sidx guidemap found realmin realmax j drawn =
       Goto (seeds', sidx', guidemap', found', realmin', realmax', j', drawn + 2)
       \<and> found' < howmany
     \<or> CheckNewC_body F rand howmany mindepth maxdepth
        seeds sidx guidemap found realmin realmax j drawn =
       Leave (seeds', sidx', guidemap', found', realmin', realmax', j', drawn + 2)
       \<and> found' = howmany)"
proof -
  let ?c = "candidate F rand drawn"
  from inv obtain ds where g: "grid_ok guidemap" and sidx: "sidx = found"
    and found: "0 \<le> found" "found \<le> howmany" and len: "length seeds = nat howmany"
    and rmin: "mindepth \<le> realmin" "realmin \<le> maxdepth"
    and rmax: "mindepth \<le> realmax" "realmax \<le> maxdepth"
    and ds: "length ds = nat found"
      "accepted_draws F rand mindepth maxdepth (wrap (maxdepth + 2)) first drawn ds"
      "take (nat found) seeds = map (candidate F rand) ds"
    by (auto simp: mining_inv_def)
  obtain i n where ev: "evaluate F guidemap ?c maxdepth = Inr (i, n)"
    using evaluate_returns [OF g, of maxdepth F ?c] cfg by auto
  show ?thesis
  proof (cases "i \<ge> mindepth \<and> i \<le> maxdepth")
    case False
    have inv': "mining_inv F rand howmany mindepth maxdepth first
        (seeds, sidx, guidemap, found, realmin, realmax, wrap (j + 1), drawn + 2)"
      using g sidx found len rmin rmax ds accepted_draws_mono [OF ds(2)]
      by (auto simp: mining_inv_def)
    have body: "CheckNewC_body F rand howmany mindepth maxdepth
        seeds sidx guidemap found realmin realmax j drawn =
        Goto (seeds, sidx, guidemap, found, realmin, realmax, wrap (j + 1), drawn + 2)"
    proof -
      have no: "(mindepth \<le> i \<and> i \<le> maxdepth) = False" using False by simp
      show ?thesis
        using ev [unfolded candidate_def] more
        by (simp add: CheckNewC_body_def CheckNewC_next_def Let_def no)
    qed
    show ?thesis using inv' body more by blast
  next
    case True
    then have "i \<noteq> - 1" using cfg by simp
    then have "escape_time F ?c (wrap (maxdepth + 2)) (czero F) 0 = i"
      using evaluate_escape_time [OF ev] by simp
    then have range: "in_range F mindepth maxdepth (wrap (maxdepth + 2)) ?c"
      using True by (simp add: in_range_def)
    obtain g' where mark: "Mark F guidemap ?c = Inr g'" and g': "grid_ok g'"
      using Mark_grid_ok [OF g] by blast
    have idx: "nat found < length seeds"
      using more found len by simp
    let ?seeds = "seeds[nat sidx := ?c]"
    let ?realmin = "if i < realmin then i else realmin"
    let ?realmax = "if i > realmax then i else realmax"
    have tk: "take (nat (found + 1)) ?seeds = map (candidate F rand) (ds @ [drawn])"
    proof -
      have "nat (found + 1) = Suc (nat found)" using found by simp
      then have "take (nat (found + 1)) ?seeds = take (nat found) ?seeds @ [?seeds ! nat found]"
        using idx by (simp add: take_Suc_conv_app_nth)
      then show ?thesis using idx ds(3) sidx by simp
    qed
    have inv': "mining_inv F rand howmany mindepth maxdepth first
        (?seeds, sidx + 1, g', found + 1, ?realmin, ?realmax, wrap (j + 1), drawn + 2)"
      unfolding mining_inv_def prod.case
      using g' sidx found more len rmin rmax True ds(1) tk
        accepted_draws_snoc [OF ds(2) first range]
      by (intro conjI exI [of _ "ds @ [drawn]"]) auto
    have body: "CheckNewC_body F rand howmany mindepth maxdepth
        seeds sidx guidemap found realmin realmax j drawn =
        CheckNewC_next howmany ?seeds (sidx + 1) g' (found + 1) ?realmin ?realmax j (drawn + 2)"
    proof -
      have "0 \<le> sidx \<and> sidx < int (length seeds)"
        using idx sidx found by linarith
      then show ?thesis
        using True ev [unfolded candidate_def] mark [unfolded candidate_def] sidx
        by (simp add: CheckNewC_body_def Let_def candidate_def)
    qed
    show ?thesis
    proof (cases "found + 1 < howmany")
      case True
      then show ?thesis using inv' body by (auto simp: CheckNewC_next_def Let_def)
    next
      case False
      then have "found + 1 = howmany" using more by simp
      then show ?thesis using inv' body
        by (intro exI [of _ ?seeds] exI [of _ "sidx + 1"] exI [of _ g'] exI [of _ "found + 1"]
            exI [of _ ?realmin] exI [of _ ?realmax] exI [of _ "wrap (j + 1)"])
          (simp add: CheckNewC_next_def Let_def)
    qed
  qed
qed


declare probe.simps [simp del]

lemma CheckNewC_post:
  fixes F :: "'f fpu"
  assumes run: "CheckNewC F rand howmany mindepth maxdepth
      seeds sidx guidemap found realmin realmax j drawn = Some r"
    and pre: "mining_inv F rand howmany mindepth maxdepth first
      (seeds, sidx, guidemap, found, realmin, realmax, j, drawn)"
      "found < howmany" "2 \<le> mindepth" "mindepth \<le> maxdepth" "first \<le> drawn"
  shows "mining_post F rand howmany mindepth maxdepth first r"
proof -
  define P where "P = (\<lambda>F rand howmany mindepth maxdepth seeds sidx guidemap found realmin
      realmax j drawn r. \<forall>first.
      mining_inv F rand howmany mindepth maxdepth first
        (seeds, sidx, guidemap, found, realmin, realmax, j, drawn) \<longrightarrow>
      found < howmany \<longrightarrow> 2 \<le> mindepth \<longrightarrow> mindepth \<le> maxdepth \<longrightarrow> first \<le> drawn \<longrightarrow>
      mining_post F rand howmany mindepth maxdepth first (r :: (panic + 'f mining) \<times> nat))"
  have "P F rand howmany mindepth maxdepth seeds sidx guidemap found realmin realmax j drawn r"
  proof (rule CheckNewC.raw_induct [where P = P, OF _ run])
    fix loop and F :: "'f fpu" and rand howmany mindepth maxdepth seeds sidx guidemap found
      realmin realmax j drawn and r :: "(panic + 'f mining) \<times> nat"
    assume IH: "\<And>F rand howmany mindepth maxdepth seeds sidx guidemap found realmin realmax j
        drawn r. loop F rand howmany mindepth maxdepth seeds sidx guidemap found realmin realmax
          j drawn = Some r \<Longrightarrow>
        P F rand howmany mindepth maxdepth seeds sidx guidemap found realmin realmax j drawn r"
    assume eq: "(case CheckNewC_body F rand howmany mindepth maxdepth
            seeds sidx guidemap found realmin realmax j drawn of
          Goto (seeds', sidx', guidemap', found', realmin', realmax', j', drawn') \<Rightarrow>
            loop F rand howmany mindepth maxdepth
              seeds' sidx' guidemap' found' realmin' realmax' j' drawn'
        | Leave (seeds', sidx', guidemap', found', realmin', realmax', j', drawn') \<Rightarrow>
            Some (Inr (seeds', sidx', guidemap', found', realmin', realmax', j', drawn'), drawn')
        | Panicking e \<Rightarrow> Some (Inl e, drawn + 2)) = Some r"
    show "P F rand howmany mindepth maxdepth seeds sidx guidemap found realmin realmax j drawn r"
      unfolding P_def
    proof (intro allI impI)
      fix first
      assume inv: "mining_inv F rand howmany mindepth maxdepth first
          (seeds, sidx, guidemap, found, realmin, realmax, j, drawn)"
        and more: "found < howmany" and cfg: "2 \<le> mindepth" "mindepth \<le> maxdepth"
        and first: "first \<le> drawn"
      from CheckNewC_body_inv [OF inv more cfg first]
      obtain seeds' sidx' guidemap' found' realmin' realmax' j'
        where inv': "mining_inv F rand howmany mindepth maxdepth first
            (seeds', sidx', guidemap', found', realmin', realmax', j', drawn + 2)"
          and body: "CheckNewC_body F rand howmany mindepth maxdepth
              seeds sidx guidemap found realmin realmax j drawn =
              Goto (seeds', sidx', guidemap', found', realmin', realmax', j', drawn + 2)
              \<and> found' < howmany
            \<or> CheckNewC_body F rand howmany mindepth maxdepth
              seeds sidx guidemap found realmin realmax j drawn =
              Leave (seeds', sidx', guidemap', found', realmin', realmax', j', drawn + 2)
              \<and> found' = howmany"
        by blast
      from body show "mining_post F rand howmany mindepth maxdepth first r"
      proof
        assume go: "CheckNewC_body F rand howmany mindepth maxdepth
              seeds sidx guidemap found realmin realmax j drawn =
              Goto (seeds', sidx', guidemap', found', realmin', realmax', j', drawn + 2)
              \<and> found' < howmany"
        then have "loop F rand howmany mindepth maxdepth
            seeds' sidx' guidemap' found' realmin' realmax' j' (drawn + 2) = Some r"
          using eq by simp
        from IH [OF this] show ?thesis
          unfolding P_def using inv' go cfg first by simp
      next
        assume stop: "CheckNewC_body F rand howmany mindepth maxdepth
              seeds sidx guidemap found realmin realmax j drawn =
              Leave (seeds', sidx', guidemap', found', realmin', realmax', j', drawn + 2)
              \<and> found' = howmany"
        then have "r = (Inr (seeds', sidx', guidemap', found', realmin', realmax', j',
            drawn + 2), drawn + 2)"
          using eq by simp
        then show ?thesis
          unfolding mining_post_def using inv' stop by blast
      qed
    qed
  qed
  then show ?thesis
    unfolding P_def using pre by blast
qed

lemma probes_grid_ok:
  assumes "grid_ok this"
  shows "\<exists>g. probes F rand n this found limmin limmax drawn = (Inr g, drawn + 2 * n) \<and> grid_ok g"
  using assms
proof (induction n arbitrary: this found limmin limmax drawn)
  case 0
  then show ?case by simp
next
  case (Suc n)
  let ?c = "Cplx (fsub F (fmul F (rand drawn) (float64 F 4)) (float64 F 2))
                 (fmul F (rand (drawn + 1)) (float64 F 2))"
  obtain g' where mark: "Mark F this ?c = Inr g'" and g': "grid_ok g'"
    using Mark_grid_ok [OF Suc.prems] by blast
  show ?case
  proof (cases "probe F ?c limmax (czero F) 0")
    case None
    then show ?thesis
      using Suc.IH [OF Suc.prems, of found limmin limmax "drawn + 2"] by (simp add: Let_def)
  next
    case (Some idx)
    show ?thesis
    proof (cases "idx \<ge> limmin")
      case True
      then show ?thesis
        using Some mark
          Suc.IH [OF g', of "wrap (found + 1)"
            "if wrap (found + 1) mod 1000 = 0 then wrap (limmin * 2) else limmin"
            "if wrap (found + 1) mod 1000 = 0 then wrap (limmax * 2) else limmax" "drawn + 2"]
        by (simp add: Let_def)
    next
      case False
      then show ?thesis
        using Some Suc.IH [OF Suc.prems, of found limmin limmax "drawn + 2"]
        by (simp add: Let_def)
    qed
  qed
qed

lemma GenerateGuidemap_grid_ok:
  assumes "0 < size'" and "size' * size' \<le> maxAlloc"
  shows "\<exists>g. GenerateGuidemap F rand nprobes size' drawn = (Inr g, drawn + 2 * nprobes) \<and>
           grid_ok g"
proof -
  have small: "size' * size' < 2 ^ 63"
    using assms(2) by (simp add: maxAlloc_def)
  have "- (2 ^ 63) \<le> (0 :: int)" by simp
  also have "0 \<le> size' * size'" by simp
  finally have "wrap (size' * size') = size' * size'"
    using small by (rule wrap_id)
  then have "\<not> makeslice_panics 1 (wrap (size' * size'))"
    using assms(2) by (simp add: makeslice_panics_def)
  then have "GenerateGuidemap F rand nprobes size' drawn =
      probes F rand nprobes (NewGuidemap F size') 0 32 (32 * 2) drawn"
    by (simp add: GenerateGuidemap_def Let_def)
  then show ?thesis
    using probes_grid_ok [OF grid_ok_New [OF assms(1) small],
        where F = F and rand = rand and n = nprobes and found = 0 and limmin = 32
          and limmax = "32 * 2" and drawn = drawn]
    by simp
qed

lemma mining_inv_start:
  assumes "1 \<le> howmany" and "mindepth \<le> maxdepth" and "grid_ok g"
  shows "mining_inv F rand howmany mindepth maxdepth first
    (replicate (nat howmany) (czero F), 0, g, 0, maxdepth, mindepth, 0, first)"
  using assms by (simp add: mining_inv_def accepted_draws_def)

text \<open>
  A seedpack of more than \<open>maxAlloc / 16\<close> seeds is refused by \<^verbatim>\<open>make\<close>: \<^verbatim>\<open>Mine\<close>
  panics in \<^verbatim>\<open>NewSeedpack\<close>, before anything is drawn.
\<close>

lemma Mine_makeslice:
  assumes "1 \<le> howmany" and "2 \<le> mindepth" and "mindepth \<le> maxdepth"
    and "maxAlloc < 16 * howmany"
  shows "Mine F rand nprobes howmany mindepth maxdepth = Some (Inl MakesliceLenOutOfRange, 0)"
  using assms by (simp add: Mine_def NewSeedpack_def makeslice_panics_def)

lemma Mine_post:
  assumes run: "Mine F rand nprobes howmany mindepth maxdepth = Some r"
    and cfg: "1 \<le> howmany" "2 \<le> mindepth" "mindepth \<le> maxdepth"
    and alloc: "16 * howmany \<le> maxAlloc"
  shows "\<exists>seeds realmin realmax drawn ds.
    r = (Inr (seeds, realmin, realmax), drawn) \<and>
    length seeds = nat howmany \<and>
    mindepth \<le> realmin \<and> realmin \<le> maxdepth \<and> mindepth \<le> realmax \<and> realmax \<le> maxdepth \<and>
    length ds = nat howmany \<and>
    accepted_draws F rand mindepth maxdepth (wrap (maxdepth + 2)) (2 * nprobes) drawn ds \<and>
    seeds = map (candidate F rand) ds"
proof -
  have "(51 :: int) * 51 \<le> maxAlloc"
    by (simp add: maxAlloc_def)
  then obtain g where gen: "GenerateGuidemap F rand nprobes 51 0 = (Inr g, 2 * nprobes)"
    and g: "grid_ok g"
    using GenerateGuidemap_grid_ok [of 51 F rand nprobes 0] by auto
  have pack: "NewSeedpack F howmany = Inr (replicate (nat howmany) (czero F))"
    using cfg(1) alloc by (simp add: NewSeedpack_def makeslice_panics_def)
  let ?loop = "CheckNewC F rand howmany mindepth maxdepth
      (replicate (nat howmany) (czero F)) 0 g 0 maxdepth mindepth 0 (2 * nprobes)"
  have mine: "Mine F rand nprobes howmany mindepth maxdepth =
      (case ?loop of
         None \<Rightarrow> None
       | Some (Inl e, drawn) \<Rightarrow> Some (Inl e, drawn)
       | Some (Inr (seeds, sidx, guidemap, found, realmin, realmax, j, drawn'), drawn) \<Rightarrow>
           Some (Inr (seeds, realmin, realmax), drawn))"
    using cfg gen pack by (simp add: Mine_def Let_def)
  from run mine obtain r' where loop: "?loop = Some r'"
    by (cases ?loop) auto
  have "mining_post F rand howmany mindepth maxdepth (2 * nprobes) r'"
    by (rule CheckNewC_post [OF loop mining_inv_start [OF cfg(1,3) g]]) (use cfg in simp_all)
  then obtain seeds' sidx' guidemap' found' realmin' realmax' j' drawn'
    where r': "r' = (Inr (seeds', sidx', guidemap', found', realmin', realmax', j', drawn'),
        drawn')"
      and f: "found' = howmany"
      and inv: "mining_inv F rand howmany mindepth maxdepth (2 * nprobes)
        (seeds', sidx', guidemap', found', realmin', realmax', j', drawn')"
    unfolding mining_post_def by blast
  have r: "r = (Inr (seeds', realmin', realmax'), drawn')"
    using run mine loop r' by simp
  from inv f obtain ds where "length seeds' = nat howmany"
    "mindepth \<le> realmin'" "realmin' \<le> maxdepth" "mindepth \<le> realmax'" "realmax' \<le> maxdepth"
    "length ds = nat howmany"
    "accepted_draws F rand mindepth maxdepth (wrap (maxdepth + 2)) (2 * nprobes) drawn' ds"
    "take (nat howmany) seeds' = map (candidate F rand) ds"
    by (auto simp: mining_inv_def)
  then show ?thesis using r by auto
qed

text \<open>
  The exits of \<^verbatim>\<open>Mine\<close> on a valid configuration: the panic of \<^verbatim>\<open>make\<close>, or,
  if the loop is left, the return of a full seedpack.
\<close>

lemma Mine_exits:
  assumes run: "Mine F rand nprobes howmany mindepth maxdepth = Some r"
    and cfg: "1 \<le> howmany" "2 \<le> mindepth" "mindepth \<le> maxdepth"
  shows "(maxAlloc < 16 * howmany \<and> r = (Inl MakesliceLenOutOfRange, 0)) \<or>
    (16 * howmany \<le> maxAlloc \<and>
     (\<exists>seeds realmin realmax drawn ds.
        r = (Inr (seeds, realmin, realmax), drawn) \<and>
        length seeds = nat howmany \<and>
        mindepth \<le> realmin \<and> realmin \<le> maxdepth \<and>
        mindepth \<le> realmax \<and> realmax \<le> maxdepth \<and>
        length ds = nat howmany \<and>
        accepted_draws F rand mindepth maxdepth (wrap (maxdepth + 2)) (2 * nprobes) drawn ds \<and>
        seeds = map (candidate F rand) ds))"
proof (cases "16 * howmany \<le> maxAlloc")
  case True
  then show ?thesis
    using Mine_post [OF run cfg True] by simp
next
  case False
  then have "Mine F rand nprobes howmany mindepth maxdepth = Some (Inl MakesliceLenOutOfRange, 0)"
    using cfg by (intro Mine_makeslice) simp_all
  then show ?thesis
    using run False by simp
qed

lemmas run_Mine =
  NewSeedpack_def makeslice_panics_def maxAlloc_def CheckNewC.simps CheckNewC_body_def
  CheckNewC_next_def Mark_flat flat_index_def NewGuidemap_def rand3_def


lemma seedpack2: "replicate 2 x = [x, x]"
  by (simp add: numeral_2_eq_2)


text \<open>
  A run of \<^verbatim>\<open>Mine\<close> for two seeds of depth 2.  The probing loop makes one pass: its
  candidate \<open>-2\<close> has the orbit \<open>-2, 2, 2, ...\<close>, which never leaves the disc, and nothing
  is marked.  Then \<open>1 + i\<close> is drawn and accepted, \<open>-1\<close> is drawn and rejected, and
  \<open>1 + i\<close> is drawn and accepted.
\<close>

lemma probe_example: "probe exact (Cplx (- 2) 0) 64 (Cplx 0 0) 0 = None"
  by (simp add: probe.simps wrap_def cadd_def cmul_def exact_def exact_cmp_def Let_def)

lemma GenerateGuidemap_example:
  "GenerateGuidemap exact rand3 1 51 0 = (Inr (NewGuidemap exact 51), 2)"
proof -
  have "probe exact (Cplx (- 2) 0) 64 (czero exact) 0 = None"
    using probe_example by (simp add: czero_def exact_def)
  then show ?thesis
    by (simp add: GenerateGuidemap_def makeslice_panics_def maxAlloc_def wrap_def rand3_def
        exact_def)
qed

lemma Mine_example:
  "Mine exact rand3 1 2 2 2 = Some (Inr ([Cplx 1 1, Cplx 1 1], 2, 2), 8)"
  unfolding Mine_def GenerateGuidemap_example
  by (simp add: run_Mine run_IterateZ seedpack2)

lemma candidate_example: "candidate exact rand3 2 = Cplx 1 1" "candidate exact rand3 6 = Cplx 1 1"
  by (simp_all add: candidate_def exact_def rand3_def)

lemma plain_depth_example: "plain_depth exact (Cplx 1 1) 2 = 2"
  by (simp add: plain_depth_def escape_time.simps Let_def cadd_def cmul_def czero_def
      bounded_def norm2_def exact_def exact_cmp_def)

text \<open>
  Asking for more seeds than \<^verbatim>\<open>make\<close> allows: \<open>2 ^ 44 + 1\<close> seeds of 16 bytes.
\<close>

lemma Mine_makeslice_example:
  "Mine exact rand3 1 17592186044417 2 2 = Some (Inl MakesliceLenOutOfRange, 0)"
  by (rule Mine_makeslice) (simp_all add: maxAlloc_def)

text \<open>
  Claim C1.  Whenever \<^verbatim>\<open>Mine\<close> returns for a valid configuration (\<open>max\<close> being an
  \<^verbatim>\<open>int\<close>), the plain escape time of every seed of the seedpack, computed without cycle
  check and without guidemap, with the ceiling \<open>max + 2\<close> of the specification, lies in
  \<open>[min, max]\<close>.  Where \<^verbatim>\<open>max + 2\<close> wraps around in the program nothing is accepted
  and \<^verbatim>\<open>Mine\<close> does not return.
\<close>

theorem Mine_sound:
  assumes "Mine F rand nprobes howmany mindepth maxdepth =
      Some (Inr (seeds, realmin, realmax), drawn)"
    and "1 \<le> howmany" and "2 \<le> mindepth" and "mindepth \<le> maxdepth" and "maxdepth \<le> MaxInt"
  shows "\<forall>c \<in> set seeds.
    mindepth \<le> plain_depth F c maxdepth \<and> plain_depth F c maxdepth \<le> maxdepth"
proof -
  from Mine_exits [OF assms(1-4)] obtain ds
    where "accepted_draws F rand mindepth maxdepth (wrap (maxdepth + 2)) (2 * nprobes) drawn ds"
      and seeds: "seeds = map (candidate F rand) ds"
    by auto
  then have "accepted_draws F rand mindepth maxdepth (maxdepth + 2) (2 * nprobes) drawn ds"
    using assms(3-5) by (intro accepted_draws_plain)
  then show ?thesis
    using seeds by (auto simp: accepted_draws_def in_range_def plain_depth_def)
qed

theorem Mine_sound_witness:
  "Mine exact rand3 1 2 2 2 = Some (Inr ([Cplx 1 1, Cplx 1 1], 2, 2), 8) \<and>
   (1 :: int) \<le> 2 \<and> (2 :: int) \<le> 2 \<and> (2 :: int) \<le> MaxInt \<and>
   plain_depth exact (Cplx 1 1) 2 = 2 \<and>
   2 \<le> plain_depth exact (Cplx 1 1) 2 \<and> plain_depth exact (Cplx 1 1) 2 \<le> 2"
proof -
  have m: "(2 :: int) \<le> MaxInt"
    by (simp add: MaxInt_def)
  show ?thesis
    using Mine_sound [OF Mine_example _ _ _ m] Mine_example plain_depth_example m by simp
qed

text \<open>
  Claim C5.  For a valid configuration (\<open>max\<close> being an \<^verbatim>\<open>int\<close>) the loop of
  \<^verbatim>\<open>Mine\<close> is left in one way only: with \<open>found = howmany\<close>, and then \<^verbatim>\<open>Mine\<close>
  returns (within the loop no index is out of range, so no panic ends it).  The seedpack
  returned has exactly \<open>howmany\<close> slots and every slot is filled: it is the list of the
  \<open>howmany\<close> candidates that were accepted, in the order in which they were drawn, all of
  them drawn after the guidemap was generated.  Otherwise the loop runs for ever and
  \<^verbatim>\<open>Mine\<close> does not return; or the loop is never entered, because \<open>howmany\<close> seeds
  are more than \<^verbatim>\<open>make\<close> allows and \<^verbatim>\<open>NewSeedpack\<close> panics.  (A seedpack that
  \<^verbatim>\<open>make\<close> allows is taken to fit into the memory of the machine.)
\<close>

theorem Mine_full_seedpack:
  assumes "1 \<le> howmany" and "2 \<le> mindepth" and "mindepth \<le> maxdepth" and "maxdepth \<le> MaxInt"
  shows "(maxAlloc < 16 * howmany \<and>
      Mine F rand nprobes howmany mindepth maxdepth = Some (Inl MakesliceLenOutOfRange, 0)) \<or>
    (16 * howmany \<le> maxAlloc \<and>
     (Mine F rand nprobes howmany mindepth maxdepth = None \<or>
      (\<exists>seeds realmin realmax drawn ds.
         Mine F rand nprobes howmany mindepth maxdepth =
           Some (Inr (seeds, realmin, realmax), drawn) \<and>
         length seeds = nat howmany \<and>
         length ds = nat howmany \<and>
         accepted_draws F rand mindepth maxdepth (maxdepth + 2) (2 * nprobes) drawn ds \<and>
         seeds = map (candidate F rand) ds)))"
proof (cases "Mine F rand nprobes howmany mindepth maxdepth")
  case None
  then show ?thesis
    using Mine_makeslice [OF assms(1-3), of F rand nprobes] by (cases "16 * howmany \<le> maxAlloc") auto
next
  case (Some r)
  from Mine_exits [OF Some assms(1-3)] show ?thesis
  proof
    assume "maxAlloc < 16 * howmany \<and> r = (Inl MakesliceLenOutOfRange, 0)"
    then show ?thesis unfolding Some by simp
  next
    assume "16 * howmany \<le> maxAlloc \<and>
      (\<exists>seeds realmin realmax drawn ds.
        r = (Inr (seeds, realmin, realmax), drawn) \<and>
        length seeds = nat howmany \<and>
        mindepth \<le> realmin \<and> realmin \<le> maxdepth \<and>
        mindepth \<le> realmax \<and> realmax \<le> maxdepth \<and>
        length ds = nat howmany \<and>
        accepted_draws F rand mindepth maxdepth (wrap (maxdepth + 2)) (2 * nprobes) drawn ds \<and>
        seeds = map (candidate F rand) ds)"
    then obtain seeds realmin realmax drawn ds
      where a: "16 * howmany \<le> maxAlloc" "r = (Inr (seeds, realmin, realmax), drawn)"
        "length seeds = nat howmany" "length ds = nat howmany"
        "seeds = map (candidate F rand) ds"
      and d: "accepted_draws F rand mindepth maxdepth (wrap (maxdepth + 2)) (2 * nprobes) drawn ds"
      by blast
    have "accepted_draws F rand mindepth maxdepth (maxdepth + 2) (2 * nprobes) drawn ds"
      using assms(2-4) d by (rule accepted_draws_plain)
    then show ?thesis
      unfolding Some using a by blast
  qed
qed

theorem Mine_full_seedpack_witness:
  "(1 :: int) \<le> 2 \<and> (2 :: int) \<le> 2 \<and> (2 :: int) \<le> MaxInt \<and> 16 * (2 :: int) \<le> maxAlloc \<and>
   Mine exact rand3 1 2 2 2 = Some (Inr ([Cplx 1 1, Cplx 1 1], 2, 2), 8) \<and>
   length [Cplx 1 1 :: real complex128, Cplx 1 1] = nat 2 \<and>
   [Cplx 1 1, Cplx 1 1] = map (candidate exact rand3) [2, 6] \<and>
   (\<exists>ds. length ds = nat 2 \<and> accepted_draws exact rand3 2 2 (2 + 2) (2 * 1) 8 ds \<and>
      [Cplx 1 1, Cplx 1 1] = map (candidate exact rand3) ds) \<and>
   (1 :: int) \<le> 17592186044417 \<and> maxAlloc < 16 * 17592186044417 \<and>
   Mine exact rand3 1 17592186044417 2 2 = Some (Inl MakesliceLenOutOfRange, 0)"
proof -
  have m: "(2 :: int) \<le> MaxInt" "16 * (2 :: int) \<le> maxAlloc" "maxAlloc < 16 * 17592186044417"
    by (simp_all add: MaxInt_def maxAlloc_def)
  show ?thesis
    using Mine_full_seedpack [of 2 2 2 exact rand3 1]
      Mine_full_seedpack [of 17592186044417 2 2 exact rand3 1] m Mine_example candidate_example
    by simp
qed

text \<open>
  Claim C8.  \<^verbatim>\<open>Mine\<close> checks \<open>howmany\<close>, then \<open>max\<close> against \<open>min\<close>, then
  \<open>min\<close>.  On an invalid configuration it panics with the message of the first check that
  fails, before anything is drawn from the generator (the count of values drawn is \<open>0\<close>)
  and before the seedpack exists, and \<^verbatim>\<open>main\<close> writes no file.  On a valid configuration
  \<^verbatim>\<open>Mine\<close> raises none of these errors, whatever the generator gives: the only panic
  that can end it is that of \<^verbatim>\<open>make\<close> in \<^verbatim>\<open>NewSeedpack\<close>, for a seedpack of more
  than \<open>maxAlloc\<close> bytes, and for a seedpack that \<^verbatim>\<open>make\<close> allows it does not panic
  at all.
\<close>

theorem Mine_config:
  "(howmany < 1 \<or> maxdepth < mindepth \<or> mindepth < 2 \<longrightarrow>
      Mine F rand nprobes howmany mindepth maxdepth =
        Some (Inl (if howmany < 1 then HowmanyLessThanOne
                   else if maxdepth < mindepth then MaxLessThanMin
                   else MinLessThanTwo), 0) \<and>
      main F rand nprobes bits md5sum openable howmany mindepth maxdepth =
        Some (Inl (if howmany < 1 then HowmanyLessThanOne
                   else if maxdepth < mindepth then MaxLessThanMin
                   else MinLessThanTwo))) \<and>
   (1 \<le> howmany \<and> 2 \<le> mindepth \<and> mindepth \<le> maxdepth \<longrightarrow>
      (\<forall>e drawn. Mine F rand nprobes howmany mindepth maxdepth = Some (Inl e, drawn) \<longrightarrow>
         e = MakesliceLenOutOfRange \<and> drawn = 0 \<and> maxAlloc < 16 * howmany) \<and>
      (16 * howmany \<le> maxAlloc \<longrightarrow>
         (\<forall>e drawn. Mine F rand nprobes howmany mindepth maxdepth \<noteq> Some (Inl e, drawn))))"
proof (intro conjI impI allI)
  assume bad: "howmany < 1 \<or> maxdepth < mindepth \<or> mindepth < 2"
  then show mine: "Mine F rand nprobes howmany mindepth maxdepth =
      Some (Inl (if howmany < 1 then HowmanyLessThanOne
                 else if maxdepth < mindepth then MaxLessThanMin
                 else MinLessThanTwo), 0)"
    by (auto simp: Mine_def)
  show "main F rand nprobes bits md5sum openable howmany mindepth maxdepth =
      Some (Inl (if howmany < 1 then HowmanyLessThanOne
                 else if maxdepth < mindepth then MaxLessThanMin
                 else MinLessThanTwo))"
    unfolding main_def mine by simp
next
  fix e drawn
  assume ok: "1 \<le> howmany \<and> 2 \<le> mindepth \<and> mindepth \<le> maxdepth"
    and run: "Mine F rand nprobes howmany mindepth maxdepth = Some (Inl e, drawn)"
  from Mine_exits [OF run] ok
  show "e = MakesliceLenOutOfRange" "drawn = 0" "maxAlloc < 16 * howmany"
    by auto
next
  fix e drawn
  assume ok: "1 \<le> howmany \<and> 2 \<le> mindepth \<and> mindepth \<le> maxdepth"
    and alloc: "16 * howmany \<le> maxAlloc"
  show "Mine F rand nprobes howmany mindepth maxdepth \<noteq> Some (Inl e, drawn)"
  proof
    assume "Mine F rand nprobes howmany mindepth maxdepth = Some (Inl e, drawn)"
    from Mine_exits [OF this] ok alloc show False by auto
  qed
qed

text \<open>
  Asking for no seed at all panics at once; asking for two seeds of depth 2 returns them.
\<close>

theorem Mine_config_witness:
  "(0 :: int) < 1 \<and>
   Mine exact rand3 1 0 2 2 = Some (Inl HowmanyLessThanOne, 0) \<and>
   (1 :: int) \<le> 2 \<and> (2 :: int) \<le> 2 \<and> 16 * (2 :: int) \<le> maxAlloc \<and>
   Mine exact rand3 1 2 2 2 = Some (Inr ([Cplx 1 1, Cplx 1 1], 2, 2), 8) \<and>
   Mine exact rand3 1 2 2 2 \<noteq> Some (Inl HowmanyLessThanOne, 0)"
proof -
  have m: "16 * (2 :: int) \<le> maxAlloc"
    by (simp add: maxAlloc_def)
  show ?thesis
    using Mine_config [of 0 2 2 exact rand3 1 "\<lambda>x. 0" "\<lambda>bs. ()" True]
      Mine_config [of 2 2 2 exact rand3 1 "\<lambda>x. 0" "\<lambda>bs. ()" True] Mine_example m
    by simp
qed

section \<open>Sort\<close>

lemma set_insertLeft [simp]: "set (insertLeft l x ys) = insert x (set ys)"
  by (induction ys) auto

lemma mset_insertLeft [simp]: "mset (insertLeft l x ys) = add_mset x (mset ys)"
  by (induction ys) auto

lemma insertLeft_desc:
  assumes "swo l A" and "x \<in> A" and "set ys \<subseteq> A" and "sorted_wrt (\<lambda>a b. \<not> l a b) ys"
  shows "sorted_wrt (\<lambda>a b. \<not> l a b) (insertLeft l x ys)"
  using assms(3,4)
proof (induction ys)
  case Nil
  then show ?case by simp
next
  case (Cons y ys)
  have asym: "\<And>a b. a \<in> A \<Longrightarrow> b \<in> A \<Longrightarrow> l a b \<Longrightarrow> \<not> l b a"
    and ntr: "\<And>a b c. a \<in> A \<Longrightarrow> b \<in> A \<Longrightarrow> c \<in> A \<Longrightarrow> \<not> l a b \<Longrightarrow> \<not> l b c \<Longrightarrow> \<not> l a c"
    using assms(1) unfolding swo_def by blast+
  show ?case
  proof (cases "l x y")
    case True
    have "\<not> l y x" using asym [OF assms(2) _ True] Cons.prems(1) by simp
    then show ?thesis
      using True Cons by auto
  next
    case False
    have "\<not> l x b" if "b \<in> set ys" for b
      using ntr [OF assms(2) _ _ False, of b] that Cons.prems by auto
    then show ?thesis
      using False Cons.prems by auto
  qed
qed

lemma foldl_insertLeft_desc:
  assumes "swo l A" and "set xs \<subseteq> A" and "set acc \<subseteq> A"
    and "sorted_wrt (\<lambda>a b. \<not> l a b) acc"
  shows "sorted_wrt (\<lambda>a b. \<not> l a b) (foldl (\<lambda>ys x. insertLeft l x ys) acc xs)"
  using assms(2-4)
proof (induction xs arbitrary: acc)
  case Nil
  then show ?case by simp
next
  case (Cons x xs)
  have "sorted_wrt (\<lambda>a b. \<not> l a b) (insertLeft l x acc)"
    using insertLeft_desc [OF assms(1) _ Cons.prems(2,3), of x] Cons.prems(1) by simp
  then show ?case
    using Cons.IH [of "insertLeft l x acc"] Cons.prems by simp
qed

lemma mset_foldl_insertLeft:
  "mset (foldl (\<lambda>ys x. insertLeft l x ys) acc xs) = mset xs + mset acc"
  by (induction xs arbitrary: acc) simp_all

lemma mset_SliceStable [simp]: "mset (SliceStable l xs) = mset xs"
  by (simp add: SliceStable_def mset_foldl_insertLeft)

lemma set_SliceStable [simp]: "set (SliceStable l xs) = set xs"
  using mset_SliceStable [of l xs] by (metis set_mset_mset)

lemma SliceStable_sorted:
  assumes "swo l (set xs)"
  shows "sorted_wrt (\<lambda>a b. \<not> l b a) (SliceStable l xs)"
proof -
  have "sorted_wrt (\<lambda>a b. \<not> l a b) (foldl (\<lambda>ys x. insertLeft l x ys) [] xs)"
    by (rule foldl_insertLeft_desc [OF assms]) simp_all
  then show ?thesis
    by (simp add: SliceStable_def sorted_wrt_rev)
qed

lemma foldl_insertLeft_sorted:
  assumes "sorted_wrt (\<lambda>a b. \<not> l b a) (rev acc @ xs)"
  shows "foldl (\<lambda>ys x. insertLeft l x ys) acc xs = rev xs @ acc"
  using assms
proof (induction xs arbitrary: acc)
  case Nil
  then show ?case by simp
next
  case (Cons x xs)
  have "insertLeft l x acc = x # acc"
  proof (cases acc)
    case Nil
    then show ?thesis by simp
  next
    case (Cons y ys)
    then have "\<not> l x y" using Cons.prems by (auto simp: sorted_wrt_append)
    then show ?thesis using Cons by simp
  qed
  moreover have "sorted_wrt (\<lambda>a b. \<not> l b a) (rev (x # acc) @ xs)"
    using Cons.prems by simp
  ultimately show ?case
    using Cons.IH [of "x # acc"] by simp
qed

lemma SliceStable_id:
  assumes "sorted_wrt (\<lambda>a b. \<not> l b a) xs"
  shows "SliceStable l xs = xs"
  using foldl_insertLeft_sorted [of l "[]" xs] assms by (simp add: SliceStable_def)

lemma filter_insertLeft:
  assumes "swo l A" and "x \<in> A" and "set ys \<subseteq> A" and "a \<in> A"
  shows "filter (\<lambda>b. \<not> l a b \<and> \<not> l b a) (insertLeft l x ys) =
         filter (\<lambda>b. \<not> l a b \<and> \<not> l b a) (x # ys)"
  using assms(3)
proof (induction ys)
  case Nil
  then show ?case by simp
next
  case (Cons y ys)
  have ntr: "\<And>a b c. a \<in> A \<Longrightarrow> b \<in> A \<Longrightarrow> c \<in> A \<Longrightarrow> \<not> l a b \<Longrightarrow> \<not> l b c \<Longrightarrow> \<not> l a c"
    using assms(1) unfolding swo_def by blast
  show ?case
  proof (cases "l x y")
    case True
    have "\<not> ((\<not> l a x \<and> \<not> l x a) \<and> (\<not> l a y \<and> \<not> l y a))"
      using ntr [OF assms(2) assms(4), of y] True Cons.prems by auto
    then show ?thesis
      using True Cons by auto
  next
    case False
    then show ?thesis by simp
  qed
qed

lemma filter_foldl_insertLeft:
  assumes "swo l A" and "set xs \<subseteq> A" and "set acc \<subseteq> A" and "a \<in> A"
  shows "filter (\<lambda>b. \<not> l a b \<and> \<not> l b a) (foldl (\<lambda>ys x. insertLeft l x ys) acc xs) =
         rev (filter (\<lambda>b. \<not> l a b \<and> \<not> l b a) xs) @ filter (\<lambda>b. \<not> l a b \<and> \<not> l b a) acc"
  using assms(2,3)
proof (induction xs arbitrary: acc)
  case Nil
  then show ?case by simp
next
  case (Cons x xs)
  have "filter (\<lambda>b. \<not> l a b \<and> \<not> l b a) (insertLeft l x acc) =
      filter (\<lambda>b. \<not> l a b \<and> \<not> l b a) (x # acc)"
    using filter_insertLeft [OF assms(1) _ Cons.prems(2) assms(4), of x] Cons.prems(1) by simp
  then show ?case
    using Cons.IH [of "insertLeft l x acc"] Cons.prems by simp
qed

lemma SliceStable_stable:
  assumes "swo l (set xs)" and "a \<in> set xs"
  shows "filter (\<lambda>b. \<not> l a b \<and> \<not> l b a) (SliceStable l xs) =
         filter (\<lambda>b. \<not> l a b \<and> \<not> l b a) xs"
  using filter_foldl_insertLeft [OF assms(1) _ _ assms(2), of xs "[]"]
  by (simp add: SliceStable_def rev_filter [symmetric])

lemma swo_less_seed:
  assumes "ordered C (parts seeds)"
  shows "swo (less_seed C) (set seeds)"
proof -
  let ?S = "parts seeds"
  have inS: "re a \<in> ?S" "im a \<in> ?S" if "a \<in> set seeds" for a
    using that by (simp_all add: parts_def)
  have eq: "\<And>x y. x \<in> ?S \<Longrightarrow> y \<in> ?S \<Longrightarrow> feq C x y \<longleftrightarrow> \<not> flt C x y \<and> \<not> flt C y x"
    and asym: "\<And>x y. x \<in> ?S \<Longrightarrow> y \<in> ?S \<Longrightarrow> flt C x y \<Longrightarrow> \<not> flt C y x"
    and ntr: "\<And>x y z. x \<in> ?S \<Longrightarrow> y \<in> ?S \<Longrightarrow> z \<in> ?S \<Longrightarrow>
        \<not> flt C x y \<Longrightarrow> \<not> flt C y z \<Longrightarrow> \<not> flt C x z"
    using assms unfolding ordered_def by blast+
  have less: "less_seed C a b \<longleftrightarrow>
      flt C (re a) (re b) \<or> (\<not> flt C (re b) (re a) \<and> flt C (im a) (im b))"
    if "a \<in> set seeds" "b \<in> set seeds" for a b
    using eq [OF inS(1) [OF that(1)] inS(1) [OF that(2)]]
      asym [OF inS(1) [OF that(1)] inS(1) [OF that(2)]]
    by (auto simp: less_seed_def)
  have 1: "\<not> less_seed C b a" if "a \<in> set seeds" "b \<in> set seeds" "less_seed C a b" for a b
    using that(3) less [OF that(1,2)] less [OF that(2,1)]
      asym [OF inS(1) [OF that(1)] inS(1) [OF that(2)]]
      asym [OF inS(2) [OF that(1)] inS(2) [OF that(2)]]
    by blast
  have 2: "\<not> less_seed C a c"
    if "a \<in> set seeds" "b \<in> set seeds" "c \<in> set seeds"
      "\<not> less_seed C a b" "\<not> less_seed C b c" for a b c
    using that(4,5) less [OF that(1,2)] less [OF that(2,3)] less [OF that(1,3)]
      ntr [OF inS(1) [OF that(1)] inS(1) [OF that(2)] inS(1) [OF that(3)]]
      ntr [OF inS(1) [OF that(3)] inS(1) [OF that(1)] inS(1) [OF that(2)]]
      ntr [OF inS(1) [OF that(2)] inS(1) [OF that(3)] inS(1) [OF that(1)]]
      ntr [OF inS(2) [OF that(1)] inS(2) [OF that(2)] inS(2) [OF that(3)]]
    by blast
  show ?thesis
    unfolding swo_def using 1 2 by blast
qed

lemma not_less_seed:
  assumes "ordered C (parts seeds)" and "a \<in> set seeds" and "b \<in> set seeds"
  shows "\<not> less_seed C b a \<longleftrightarrow> seed_le C a b"
    and "\<not> less_seed C a b \<and> \<not> less_seed C b a \<longleftrightarrow> tie C a b"
proof -
  let ?S = "parts seeds"
  have inS: "re a \<in> ?S" "im a \<in> ?S" "re b \<in> ?S" "im b \<in> ?S"
    using assms(2,3) by (simp_all add: parts_def)
  have laws: "\<And>x y. x \<in> ?S \<Longrightarrow> y \<in> ?S \<Longrightarrow>
      (feq C x y \<longleftrightarrow> \<not> flt C x y \<and> \<not> flt C y x) \<and>
      (fle C x y \<longleftrightarrow> flt C x y \<or> feq C x y) \<and> (flt C x y \<longrightarrow> \<not> flt C y x)"
    using assms(1) unfolding ordered_def by blast
  show "\<not> less_seed C b a \<longleftrightarrow> seed_le C a b"
    using laws [OF inS(1) inS(3)] laws [OF inS(3) inS(1)]
      laws [OF inS(2) inS(4)] laws [OF inS(4) inS(2)]
    unfolding less_seed_def seed_le_def by (auto split: if_splits)
  show "\<not> less_seed C a b \<and> \<not> less_seed C b a \<longleftrightarrow> tie C a b"
    using laws [OF inS(1) inS(3)] laws [OF inS(3) inS(1)]
      laws [OF inS(2) inS(4)] laws [OF inS(4) inS(2)]
    unfolding less_seed_def tie_def by (auto split: if_splits)
qed

lemma parts_Sort [simp]: "parts (Sort C seeds) = parts seeds"
  by (simp add: parts_def Sort_def)

text \<open>
  Claim C6, as the code has it.  \<^verbatim>\<open>Sort\<close> compares with \<^verbatim>\<open><\<close> and \<^verbatim>\<open>!=\<close>
  on floats, and a NaN is neither less than nor equal to anything: a seedpack with a NaN
  component can come out unsorted.  For every seedpack without NaN components (the seeds
  that \<^verbatim>\<open>Mine\<close> draws are such) the result is a rearrangement of the seedpack that is
  non-decreasing by real part and, among equal real parts, by imaginary part; seeds that tie
  keep their order; and sorting twice gives what sorting once gives.
\<close>

theorem Sort_sorted_stable_idempotent:
  assumes "ordered C (parts seeds)"
  shows "mset (Sort C seeds) = mset seeds \<and>
    sorted_wrt (seed_le C) (Sort C seeds) \<and>
    (\<forall>a \<in> set seeds. filter (tie C a) (Sort C seeds) = filter (tie C a) seeds) \<and>
    Sort C (Sort C seeds) = Sort C seeds"
proof -
  note swo = swo_less_seed [OF assms]
  have perm: "mset (Sort C seeds) = mset seeds"
    by (simp add: Sort_def)
  have srt: "sorted_wrt (\<lambda>a b. \<not> less_seed C b a) (Sort C seeds)"
    unfolding Sort_def by (rule SliceStable_sorted [OF swo])
  have "sorted_wrt (seed_le C) (Sort C seeds)"
  proof (rule sorted_wrt_mono_rel [OF _ srt])
    fix a b
    assume "a \<in> set (Sort C seeds)" "b \<in> set (Sort C seeds)" "\<not> less_seed C b a"
    then show "seed_le C a b"
      using not_less_seed(1) [OF assms, of a b] by (simp add: Sort_def)
  qed
  moreover have "filter (tie C a) (Sort C seeds) = filter (tie C a) seeds"
    if a: "a \<in> set seeds" for a
  proof -
    have "filter (tie C a) (Sort C seeds) =
        filter (\<lambda>b. \<not> less_seed C a b \<and> \<not> less_seed C b a) (Sort C seeds)"
      by (rule filter_cong [OF refl]) (use not_less_seed(2) [OF assms a] in \<open>simp add: Sort_def\<close>)
    also have "\<dots> = filter (\<lambda>b. \<not> less_seed C a b \<and> \<not> less_seed C b a) seeds"
      unfolding Sort_def by (rule SliceStable_stable [OF swo a])
    also have "\<dots> = filter (tie C a) seeds"
      by (rule filter_cong [OF refl]) (use not_less_seed(2) [OF assms a] in simp)
    finally show ?thesis .
  qed
  moreover have "Sort C (Sort C seeds) = Sort C seeds"
    using SliceStable_id [OF srt [unfolded Sort_def]] by (simp add: Sort_def)
  ultimately show ?thesis using perm by blast
qed

lemma ordered_ieee:
  assumes "\<forall>x \<in> S. \<not> ieee_nan x"
  shows "ordered ieee_cmp S"
  using assms by (auto simp: ordered_def ieee_cmp_def)

lemmas run_Sort = Sort_def SliceStable_def less_seed_def ieee_cmp_def ieee_nan_def ieee_key_def

text \<open>
  The seeds \<open>2\<close>, \<open>1 + i\<close> and \<open>1\<close>, as bits (\<open>0x3FF0000000000000\<close> is 1.0 and
  \<open>0x4000000000000000\<close> is 2.0), sort to \<open>1\<close>, \<open>1 + i\<close>, \<open>2\<close>.
\<close>

theorem Sort_sorted_stable_idempotent_witness:
  "ordered ieee_cmp (parts [Cplx 0x4000000000000000 0,
     Cplx 0x3FF0000000000000 0x3FF0000000000000, Cplx 0x3FF0000000000000 (0 :: 64 word)]) \<and>
   Sort ieee_cmp [Cplx 0x4000000000000000 0, Cplx 0x3FF0000000000000 0x3FF0000000000000,
     Cplx 0x3FF0000000000000 0] =
   [Cplx 0x3FF0000000000000 0, Cplx 0x3FF0000000000000 0x3FF0000000000000,
     Cplx 0x4000000000000000 0] \<and>
   sorted_wrt (seed_le ieee_cmp)
     [Cplx 0x3FF0000000000000 0, Cplx 0x3FF0000000000000 0x3FF0000000000000,
      Cplx 0x4000000000000000 (0 :: 64 word)] \<and>
   Sort ieee_cmp [Cplx 0x3FF0000000000000 0, Cplx 0x3FF0000000000000 0x3FF0000000000000,
     Cplx 0x4000000000000000 0] =
   [Cplx 0x3FF0000000000000 0, Cplx 0x3FF0000000000000 0x3FF0000000000000,
     Cplx 0x4000000000000000 0]"
proof -
  let ?seeds = "[Cplx 0x4000000000000000 0, Cplx 0x3FF0000000000000 0x3FF0000000000000,
     Cplx 0x3FF0000000000000 (0 :: 64 word)]"
  have ord: "ordered ieee_cmp (parts ?seeds)"
    by (rule ordered_ieee) (simp add: parts_def ieee_nan_def)
  have run: "Sort ieee_cmp ?seeds =
      [Cplx 0x3FF0000000000000 0, Cplx 0x3FF0000000000000 0x3FF0000000000000,
       Cplx 0x4000000000000000 0]"
    by (simp add: run_Sort)
  show ?thesis
    using Sort_sorted_stable_idempotent [OF ord] ord run by simp
qed

text \<open>
  The claim as stated fails on the seedpack \<open>1\<close>, \<open>NaN\<close>, \<open>0\<close>
  (\<open>0x7FF8000000000000\<close> is a NaN): no seed is less than its left neighbour, so
  \<^verbatim>\<open>Sort\<close> moves nothing, and \<open>1\<close> stays before \<open>0\<close>.
\<close>

theorem Sort_NaN_counterexample:
  "ieee_nan 0x7FF8000000000000 \<and>
   Sort ieee_cmp [Cplx 0x3FF0000000000000 0, Cplx 0x7FF8000000000000 0, Cplx 0 0] =
     [Cplx 0x3FF0000000000000 0, Cplx 0x7FF8000000000000 0, Cplx 0 0] \<and>
   \<not> sorted_wrt (seed_le ieee_cmp)
     (Sort ieee_cmp [Cplx 0x3FF0000000000000 0, Cplx 0x7FF8000000000000 0, Cplx 0 0])"
proof -
  have nan: "ieee_nan 0x7FF8000000000000"
    by (simp add: ieee_nan_def)
  have run: "Sort ieee_cmp [Cplx 0x3FF0000000000000 0, Cplx 0x7FF8000000000000 0, Cplx 0 0] =
      [Cplx 0x3FF0000000000000 0, Cplx 0x7FF8000000000000 0, Cplx 0 0]"
    by (simp add: run_Sort)
  have "\<not> sorted_wrt (seed_le ieee_cmp)
      [Cplx 0x3FF0000000000000 0, Cplx 0x7FF8000000000000 0, Cplx 0 0]"
    by (simp add: seed_le_def ieee_cmp_def ieee_nan_def ieee_key_def)
  then show ?thesis
    using nan run by simp
qed

section \<open>SaveEMSFile\<close>

lemma length_PutUint64 [simp]: "length (PutUint64 v) = 8"
  by (simp add: PutUint64_def)

lemma split_byte:
  fixes w :: "64 word"
  shows "ucast (ucast w :: byte) OR push_bit 8 (drop_bit 8 w) = w"
proof (rule bit_word_eqI)
  fix n
  assume "n < LENGTH(64)"
  show "bit (ucast (ucast w :: byte) OR push_bit 8 (drop_bit 8 w)) n = bit w n"
  proof (cases "n < 8")
    case True
    then show ?thesis by (simp add: bit_simps)
  next
    case False
    then have "8 + (n - 8) = n" by simp
    then show ?thesis using False \<open>n < LENGTH(64)\<close> by (simp add: bit_simps)
  qed
qed

lemma top_byte:
  fixes w :: "64 word"
  shows "ucast (ucast (drop_bit 56 w) :: byte) = drop_bit 56 w"
proof (rule bit_word_eqI)
  fix n
  assume "n < LENGTH(64)"
  have "bit w (56 + n) \<Longrightarrow> n < 8"
    using bit_imp_le_length [of w "56 + n"] by simp
  then show "bit (ucast (ucast (drop_bit 56 w) :: byte) :: 64 word) n = bit (drop_bit 56 w) n"
    by (auto simp: bit_simps)
qed

lemma bytes_of_word:
  fixes v :: "64 word"
  shows "ucast (ucast v :: byte) OR push_bit 8 (ucast (ucast (drop_bit 8 v) :: byte))
     OR push_bit 16 (ucast (ucast (drop_bit 16 v) :: byte))
     OR push_bit 24 (ucast (ucast (drop_bit 24 v) :: byte))
     OR push_bit 32 (ucast (ucast (drop_bit 32 v) :: byte))
     OR push_bit 40 (ucast (ucast (drop_bit 40 v) :: byte))
     OR push_bit 48 (ucast (ucast (drop_bit 48 v) :: byte))
     OR push_bit 56 (ucast (ucast (drop_bit 56 v) :: byte)) = v"
proof -
  have d: "drop_bit k v = ucast (ucast (drop_bit k v) :: byte) OR push_bit 8 (drop_bit (k + 8) v)"
    for k
    using split_byte [of "drop_bit k v"] by (simp add: add.commute)
  have "v = ucast (ucast v :: byte) OR push_bit 8 (drop_bit 8 v)"
    by (simp add: split_byte)
  also have "\<dots> = ucast (ucast v :: byte) OR push_bit 8 (ucast (ucast (drop_bit 8 v) :: byte))
      OR push_bit 16 (drop_bit 16 v)"
    by (subst d [of 8]) (simp add: push_bit_or or.assoc)
  also have "\<dots> = ucast (ucast v :: byte) OR push_bit 8 (ucast (ucast (drop_bit 8 v) :: byte))
      OR push_bit 16 (ucast (ucast (drop_bit 16 v) :: byte)) OR push_bit 24 (drop_bit 24 v)"
    by (subst d [of 16]) (simp add: push_bit_or or.assoc)
  also have "\<dots> = ucast (ucast v :: byte) OR push_bit 8 (ucast (ucast (drop_bit 8 v) :: byte))
      OR push_bit 16 (ucast (ucast (drop_bit 16 v) :: byte))
      OR push_bit 24 (ucast (ucast (drop_bit 24 v) :: byte)) OR push_bit 32 (drop_bit 32 v)"
    by (subst d [of 24]) (simp add: push_bit_or or.assoc)
  also have "\<dots> = ucast (ucast v :: byte) OR push_bit 8 (ucast (ucast (drop_bit 8 v) :: byte))
      OR push_bit 16 (ucast (ucast (drop_bit 16 v) :: byte))
      OR push_bit 24 (ucast (ucast (drop_bit 24 v) :: byte))
      OR push_bit 32 (ucast (ucast (drop_bit 32 v) :: byte)) OR push_bit 40 (drop_bit 40 v)"
    by (subst d [of 32]) (simp add: push_bit_or or.assoc)
  also have "\<dots> = ucast (ucast v :: byte) OR push_bit 8 (ucast (ucast (drop_bit 8 v) :: byte))
      OR push_bit 16 (ucast (ucast (drop_bit 16 v) :: byte))
      OR push_bit 24 (ucast (ucast (drop_bit 24 v) :: byte))
      OR push_bit 32 (ucast (ucast (drop_bit 32 v) :: byte))
      OR push_bit 40 (ucast (ucast (drop_bit 40 v) :: byte)) OR push_bit 48 (drop_bit 48 v)"
    by (subst d [of 40]) (simp add: push_bit_or or.assoc)
  also have "\<dots> = ucast (ucast v :: byte) OR push_bit 8 (ucast (ucast (drop_bit 8 v) :: byte))
      OR push_bit 16 (ucast (ucast (drop_bit 16 v) :: byte))
      OR push_bit 24 (ucast (ucast (drop_bit 24 v) :: byte))
      OR push_bit 32 (ucast (ucast (drop_bit 32 v) :: byte))
      OR push_bit 40 (ucast (ucast (drop_bit 40 v) :: byte))
      OR push_bit 48 (ucast (ucast (drop_bit 48 v) :: byte)) OR push_bit 56 (drop_bit 56 v)"
    by (subst d [of 48]) (simp add: push_bit_or or.assoc)
  finally show ?thesis
    by (simp add: top_byte)
qed

lemma Uint64_PutUint64: "Uint64 (PutUint64 v @ rest) = v"
  using bytes_of_word [of v] by (simp add: Uint64_def PutUint64_def)

declare decode_payload.simps [simp del]

lemma foldl_Write_complex128:
  "foldl (Write_complex128 bits) buf seeds = buf @ encode bits seeds"
  by (induction seeds arbitrary: buf) (simp_all add: encode_def Write_complex128_def)

lemma length_encode: "length (encode bits seeds) = 16 * length seeds"
  by (induction seeds) (simp_all add: encode_def)

lemma length_magic: "length magic = 32"
  by (simp add: magic_def)

lemma SaveEMSFile_eq:
  "SaveEMSFile C bits md5sum openable seeds mindepth maxdepth =
    (if openable
     then Inr \<lparr>name_min = mindepth, name_max = maxdepth,
               name_md5 = md5sum (encode bits (Sort C seeds)),
               contents = magic @ encode bits (Sort C seeds)\<rparr>
     else Inl OpenFileError)"
  by (simp add: SaveEMSFile_def Let_def foldl_Write_complex128)

lemma decode_encode:
  "decode_payload (encode bits seeds) = map (\<lambda>c. (bits (re c), bits (im c))) seeds"
proof (induction seeds)
  case Nil
  then show ?case by (simp add: encode_def decode_payload.simps)
next
  case (Cons c seeds)
  have e: "encode bits (c # seeds) =
      PutUint64 (bits (re c)) @ PutUint64 (bits (im c)) @ encode bits seeds"
    by (simp add: encode_def)
  have "decode_payload (encode bits (c # seeds)) =
      (Uint64 (PutUint64 (bits (re c)) @ []), Uint64 (PutUint64 (bits (im c)) @ []))
        # decode_payload (encode bits seeds)"
    by (subst decode_payload.simps) (simp add: e)
  then show ?case
    using Cons.IH by (simp only: Uint64_PutUint64) simp
qed

lemma PutUint64_one: "PutUint64 0x3FF0000000000000 = [0, 0, 0, 0, 0, 0, 0xF0, 0x3F]"
  by (simp add: PutUint64_def)

lemma PutUint64_zero: "PutUint64 0 = [0, 0, 0, 0, 0, 0, 0, 0]"
  by (simp add: PutUint64_def)

lemma Sort_single: "Sort C [c] = [c]"
  by (simp add: Sort_def SliceStable_def)

lemma SaveEMSFile_example:
  "SaveEMSFile ieee_cmp (\<lambda>w. w) (\<lambda>bs. bs) True [Cplx 0x3FF0000000000000 0] 2 2 =
    Inr \<lparr>name_min = 2, name_max = 2,
         name_md5 = [0, 0, 0, 0, 0, 0, 0xF0, 0x3F, 0, 0, 0, 0, 0, 0, 0, 0],
         contents = magic @ [0, 0, 0, 0, 0, 0, 0xF0, 0x3F, 0, 0, 0, 0, 0, 0, 0, 0]\<rparr>"
  by (simp add: SaveEMSFile_eq Sort_single encode_def PutUint64_one PutUint64_zero)

lemma length_Sort: "length (Sort C seeds) = length seeds"
  using mset_SliceStable [of "less_seed C" seeds] unfolding Sort_def by (metis size_mset)

text \<open>
  Claim C3, as the code has it.  The string literal that \<^verbatim>\<open>SaveEMSFile\<close> writes first
  has 32 bytes, not 33.  The file is these 32 bytes followed at once by the payload, 16 bytes
  for each seed of the sorted seedpack, and the digest in the file's name is \<^verbatim>\<open>md5.Sum\<close>
  of the payload alone.  The file is written only if \<^verbatim>\<open>os.OpenFile\<close> succeeds.
\<close>

theorem SaveEMSFile_layout:
  "length magic = 32 \<and>
   length (encode bits (Sort C seeds)) = 16 * length seeds \<and>
   SaveEMSFile C bits md5sum openable seeds mindepth maxdepth =
    (if openable
     then Inr \<lparr>name_min = mindepth, name_max = maxdepth,
               name_md5 = md5sum (encode bits (Sort C seeds)),
               contents = magic @ encode bits (Sort C seeds)\<rparr>
     else Inl OpenFileError)"
  by (simp add: length_magic length_encode length_Sort SaveEMSFile_eq)

text \<open>
  One seed, \<open>1 + 0i\<close>, with the bits of a float as they are and the payload itself in
  the place of its digest: the file is the 32 bytes of the literal and the 16 of the seed.
\<close>

theorem SaveEMSFile_layout_witness:
  "length magic = 32 \<and>
   encode (\<lambda>w. w) (Sort ieee_cmp [Cplx 0x3FF0000000000000 0]) =
     [0, 0, 0, 0, 0, 0, 0xF0, 0x3F, 0, 0, 0, 0, 0, 0, 0, 0] \<and>
   SaveEMSFile ieee_cmp (\<lambda>w. w) (\<lambda>bs. bs) True [Cplx 0x3FF0000000000000 0] 2 2 =
    Inr \<lparr>name_min = 2, name_max = 2,
         name_md5 = [0, 0, 0, 0, 0, 0, 0xF0, 0x3F, 0, 0, 0, 0, 0, 0, 0, 0],
         contents = magic @ [0, 0, 0, 0, 0, 0, 0xF0, 0x3F, 0, 0, 0, 0, 0, 0, 0, 0]\<rparr>"
proof -
  have e: "encode (\<lambda>w. w) (Sort ieee_cmp [Cplx 0x3FF0000000000000 0]) =
      [0, 0, 0, 0, 0, 0, 0xF0, 0x3F, 0, 0, 0, 0, 0, 0, 0, 0]"
    by (simp add: Sort_single encode_def PutUint64_one PutUint64_zero)
  show ?thesis
    using SaveEMSFile_layout [of "\<lambda>w. w" ieee_cmp "[Cplx 0x3FF0000000000000 0]"
        "\<lambda>bs. bs" True 2 2] e
    by simp
qed

text \<open>
  The claim as stated fails on that seedpack: the literal has 32 bytes, and the file has
  \<open>32 + 16\<close> bytes, not \<open>33 + 16\<close>.
\<close>

theorem SaveEMSFile_header_counterexample:
  "length magic \<noteq> 33 \<and>
   SaveEMSFile ieee_cmp (\<lambda>w. w) (\<lambda>bs. bs) True [Cplx 0x3FF0000000000000 0] 2 2 =
    Inr \<lparr>name_min = 2, name_max = 2,
         name_md5 = [0, 0, 0, 0, 0, 0, 0xF0, 0x3F, 0, 0, 0, 0, 0, 0, 0, 0],
         contents = magic @ [0, 0, 0, 0, 0, 0, 0xF0, 0x3F, 0, 0, 0, 0, 0, 0, 0, 0]\<rparr> \<and>
   length (magic @ [0, 0, 0, 0, 0, 0, 0xF0, 0x3F, 0, 0, 0, 0, 0, 0, 0, 0 :: byte]) \<noteq> 33 + 16"
  using SaveEMSFile_example by (simp add: length_magic)

text \<open>
  Claim C7, as the code has it.  The payload begins after the 32 bytes of the literal.
  Reading it from there as successive pairs of 64-bit little-endian values gives, seed for
  seed of the sorted seedpack, the bits of its real and of its imaginary component, which
  \<^verbatim>\<open>math.Float64frombits\<close> turns back into the same floats.
\<close>

theorem SaveEMSFile_roundtrip:
  assumes "openable"
  shows "\<exists>f. SaveEMSFile C bits md5sum openable seeds mindepth maxdepth = Inr f \<and>
    decode_payload (drop 32 (contents f)) = map (\<lambda>c. (bits (re c), bits (im c))) (Sort C seeds)"
  using assms by (simp add: SaveEMSFile_eq length_magic decode_encode)

theorem SaveEMSFile_roundtrip_witness:
  "SaveEMSFile ieee_cmp (\<lambda>w. w) (\<lambda>bs. bs) True [Cplx 0x3FF0000000000000 0] 2 2 =
    Inr \<lparr>name_min = 2, name_max = 2,
         name_md5 = [0, 0, 0, 0, 0, 0, 0xF0, 0x3F, 0, 0, 0, 0, 0, 0, 0, 0],
         contents = magic @ [0, 0, 0, 0, 0, 0, 0xF0, 0x3F, 0, 0, 0, 0, 0, 0, 0, 0]\<rparr> \<and>
   decode_payload (drop 32 (magic @ [0, 0, 0, 0, 0, 0, 0xF0, 0x3F, 0, 0, 0, 0, 0, 0, 0, 0])) =
     [(0x3FF0000000000000, 0)]"
  using SaveEMSFile_roundtrip [of True ieee_cmp "\<lambda>w. w" "\<lambda>bs. bs"
      "[Cplx 0x3FF0000000000000 0]" 2 2] SaveEMSFile_example
  by (simp add: Sort_single)

text \<open>
  The claim as stated fails on that file: after 33 bytes only 15 are left, which is no
  pair of 64-bit values, so nothing is read back.
\<close>

theorem SaveEMSFile_skip33_counterexample:
  "SaveEMSFile ieee_cmp (\<lambda>w. w) (\<lambda>bs. bs) True [Cplx 0x3FF0000000000000 0] 2 2 =
    Inr \<lparr>name_min = 2, name_max = 2,
         name_md5 = [0, 0, 0, 0, 0, 0, 0xF0, 0x3F, 0, 0, 0, 0, 0, 0, 0, 0],
         contents = magic @ [0, 0, 0, 0, 0, 0, 0xF0, 0x3F, 0, 0, 0, 0, 0, 0, 0, 0]\<rparr> \<and>
   Sort ieee_cmp [Cplx 0x3FF0000000000000 0] = [Cplx 0x3FF0000000000000 0] \<and>
   decode_payload (drop 33 (magic @ [0, 0, 0, 0, 0, 0, 0xF0, 0x3F, 0, 0, 0, 0, 0, 0, 0, 0])) =
     [] \<and>
   decode_payload (drop 33 (magic @ [0, 0, 0, 0, 0, 0, 0xF0, 0x3F, 0, 0, 0, 0, 0, 0, 0, 0])) \<noteq>
     [(0x3FF0000000000000, 0)]"
  using SaveEMSFile_example
  by (simp add: Sort_single decode_payload.simps length_magic)

end
